theory Spec2Isabelle
  imports Complex_Main
begin

section \<open>Python values, exceptions and string primitives\<close>

text \<open>
  The program is one Python class, \<open>BoardGameMechanicsAnalyser\<close> (main.py). Its data are
  table cells and dictionary values; the ones that can occur are Python's \<open>None\<close>, the
  float \<open>nan\<close> that pandas uses for a missing cell, booleans, unbounded integers, floats
  and strings. A float is represented by the rational it denotes (the infinities and the
  sign of zero are outside the model); a string is a list of code points below 256.
\<close>

datatype pyval = PNone | PNaN | PBool bool | PInt int | PFloat rat | PStr string

text \<open>
  Every exception the program raises or lets through, one constructor per raise site
  or builtin failure. The three \<open>ValueError_*\<close> constructors and \<open>ValueError_digit_limit\<close>
  are all Python's \<open>ValueError\<close>; \<open>OtherException\<close> stands for any other subclass of
  \<open>Exception\<close> that a library call (the table reader, the text-generation client) raises.
\<close>

datatype exn =
    FileNotFoundError string
  | ValueError_missing_columns
  | ValueError_game_not_found string
  | ValueError_column_not_found string
  | ValueError_invalid_literal string
  | ValueError_digit_limit
  | KeyError string
  | AttributeError string
  | ZeroDivisionError
  | OverflowError
  | OtherException string

fun is_ValueError :: "exn \<Rightarrow> bool" where
  "is_ValueError ValueError_missing_columns = True"
| "is_ValueError (ValueError_game_not_found _) = True"
| "is_ValueError (ValueError_column_not_found _) = True"
| "is_ValueError (ValueError_invalid_literal _) = True"
| "is_ValueError ValueError_digit_limit = True"
| "is_ValueError _ = False"

subsection \<open>\<open>str.strip\<close>, \<open>str.split\<close>, \<open>str.count\<close>, \<open>str.replace\<close>\<close>

text \<open>
  \<open>str.isspace\<close> on the code points below 256: tab to carriage return, the four
  separators 0x1C to 0x1F, space, NEL (0x85) and the no-break space (0xA0).
\<close>

definition isspace :: "char \<Rightarrow> bool" where
  "isspace c \<longleftrightarrow> c \<in> {CHR 0x09, CHR 0x0A, CHR 0x0B, CHR 0x0C, CHR 0x0D,
                      CHR 0x1C, CHR 0x1D, CHR 0x1E, CHR 0x1F, CHR 0x20, CHR 0x85, CHR 0xA0}"

definition strip :: "string \<Rightarrow> string" where
  "strip s = rev (dropWhile isspace (rev (dropWhile isspace s)))"

text \<open>\<open>s.split(d)\<close> for a one-character separator: never empty, \<open>''''\<close> gives \<open>['''']\<close>.\<close>

fun split :: "char \<Rightarrow> string \<Rightarrow> string list" where
  "split d [] = [[]]"
| "split d (c # cs) =
     (if c = d then [] # split d cs
      else (case split d cs of w # ws \<Rightarrow> (c # w) # ws | [] \<Rightarrow> [[c]]))"

text \<open>\<open>s.count(d)\<close> for a one-character \<open>d\<close>.\<close>

definition count :: "string \<Rightarrow> char \<Rightarrow> nat" where
  "count s d = length (filter (\<lambda>c. c = d) s)"

text \<open>
  \<open>s.replace(old, new)\<close> for a non-empty \<open>old\<close>: the leftmost occurrence is replaced and
  the scan goes on behind it (occurrences do not overlap).
\<close>

function replace :: "string \<Rightarrow> string \<Rightarrow> string \<Rightarrow> string" where
  "replace old new [] = []"
| "replace old new (c # cs) =
     (if old \<noteq> [] \<and> take (length old) (c # cs) = old
      then new @ replace old new (drop (length old - 1) cs)
      else c # replace old new cs)"
  by pat_completeness auto
termination
  by (relation "measure (\<lambda>(old, new, s). length s)") auto

text \<open>The slice \<open>xs[:k]\<close>: a negative bound counts from the end of the sequence.\<close>

definition slice_to :: "'a list \<Rightarrow> int \<Rightarrow> 'a list" where
  "slice_to xs k = (if 0 \<le> k then take (nat k) xs else take (length xs - nat (- k)) xs)"

subsection \<open>\<open>int(text)\<close>\<close>

text \<open>
  \<open>int\<close> on a string, base 10: white space is skipped at both ends (tab to carriage
  return, space, and the two code points above 127 that are spaces), then an optional sign,
  then decimal digits in which single underscores may stand between two digits. A string
  with more digits than the interpreter's limit \<open>maxd\<close> (\<open>sys.get_int_max_str_digits()\<close>,
  4300 unless configured, 0 for no limit) is refused as well.
\<close>

definition int_space :: "char \<Rightarrow> bool" where
  "int_space c \<longleftrightarrow> c \<in> {CHR 0x09, CHR 0x0A, CHR 0x0B, CHR 0x0C, CHR 0x0D, CHR 0x20,
                       CHR 0x85, CHR 0xA0}"

definition isdecimal :: "char \<Rightarrow> bool" where
  "isdecimal c \<longleftrightarrow> c \<in> set ''0123456789''"

definition digit_val :: "char \<Rightarrow> int" where
  "digit_val c = int (of_char c) - 48"

definition digits_value :: "string \<Rightarrow> int" where
  "digits_value ds = foldl (\<lambda>a c. 10 * a + digit_val c) 0 ds"

fun double_underscore :: "string \<Rightarrow> bool" where
  "double_underscore (a # b # cs) =
     ((a = CHR ''_'' \<and> b = CHR ''_'') \<or> double_underscore (b # cs))"
| "double_underscore _ = False"

definition py_int :: "nat \<Rightarrow> string \<Rightarrow> exn + int" where
  "py_int maxd s =
     (let t = dropWhile int_space s;
          neg = (t \<noteq> [] \<and> hd t = CHR ''-'');
          u = (if t \<noteq> [] \<and> (hd t = CHR ''-'' \<or> hd t = CHR ''+'') then tl t else t);
          body = takeWhile (\<lambda>c. isdecimal c \<or> c = CHR ''_'') u;
          rest = dropWhile (\<lambda>c. isdecimal c \<or> c = CHR ''_'') u;
          ds = filter isdecimal body
      in if body = [] \<or> hd body = CHR ''_'' \<or> last body = CHR ''_''
            \<or> double_underscore body
         then Inl (ValueError_invalid_literal s)
         else if 0 < maxd \<and> maxd < length ds then Inl ValueError_digit_limit
         else if dropWhile int_space rest \<noteq> [] then Inl (ValueError_invalid_literal s)
         else Inr ((if neg then - 1 else 1) * digits_value ds))"

text \<open>Lines 93 and 96: \<open>int(response.text.strip())\<close>.\<close>

definition parse_count :: "nat \<Rightarrow> string \<Rightarrow> exn + int" where
  "parse_count maxd text = py_int maxd (strip text)"

subsection \<open>\<open>int / int\<close>\<close>

text \<open>
  True division of two integers gives the double nearest to the exact quotient, ties
  going to the even mantissa; it raises \<open>ZeroDivisionError\<close> for the divisor 0 and
  \<open>OverflowError\<close> when the rounded quotient is beyond the largest double. A double is
  \<open>m * 2 ^ e\<close> with \<open>\<bar>m\<bar> < 2 ^ 53\<close> and \<open>- 1074 \<le> e \<le> 971\<close>, and is represented by
  that rational (the sign of a zero is not represented).

  \<open>bit_length\<close> is \<open>int.bit_length\<close> on positive integers, \<open>ilog2 a\<close> the integer \<open>n\<close> with
  \<open>2 ^ n \<le> a < 2 ^ (n + 1)\<close>. \<open>round_double\<close> scales the quotient by the power of two that
  leaves 53 bits before the point (fewer below the smallest normal double), rounds to an
  integer and scales back.
\<close>

function bit_length :: "int \<Rightarrow> nat" where
  "bit_length k = (if k \<le> 0 then 0 else Suc (bit_length (k div 2)))"
  by pat_completeness auto
termination
  by (relation "measure nat") auto

declare bit_length.simps [simp del]

definition ilog2 :: "rat \<Rightarrow> int" where
  "ilog2 a = (if 1 \<le> a then int (bit_length \<lfloor>a\<rfloor>) - 1
              else - int (bit_length (\<lceil>1 / a\<rceil> - 1)))"

definition round_half_even :: "rat \<Rightarrow> int" where
  "round_half_even x =
     (let f = \<lfloor>x\<rfloor>; d = x - of_int f
      in if d < 1 / 2 then f else if 1 / 2 < d then f + 1 else if even f then f else f + 1)"

definition round_double :: "rat \<Rightarrow> rat option" where
  "round_double q =
     (if q = 0 then Some 0
      else
        (let a = \<bar>q\<bar>;
             e = max (- 1074) (ilog2 a - 52);
             m = round_half_even (a / 2 powi e);
             r = of_int m * 2 powi e
         in if 2 powi 1024 \<le> r then None else Some (sgn q * r)))"

definition truediv :: "int \<Rightarrow> int \<Rightarrow> exn + rat" where
  "truediv a b =
     (if b = 0 then Inl ZeroDivisionError
      else (case round_double (of_int a / of_int b) of
              None \<Rightarrow> Inl OverflowError
            | Some r \<Rightarrow> Inr r))"

section \<open>Tables and the analyser object\<close>

text \<open>
  A pandas \<open>DataFrame\<close> as the program uses it: the column labels, and the rows in
  order, each row giving the cell of every column. A missing cell is \<open>PNaN\<close> (or
  \<open>PNone\<close> in a column of objects).
\<close>

record dataframe =
  columns :: "string list"
  rows :: "(string \<Rightarrow> pyval) list"

text \<open>
  The object \<open>self\<close>. The attributes \<open>dataset\<close> and \<open>cleaned_dataset\<close> exist only after
  they have been assigned (\<open>None\<close>: \<open>hasattr\<close> is false). \<open>model_calls\<close> is the state
  of the client \<open>self.model\<close>: how many requests it has answered.
\<close>

record analyser =
  dataset_path :: string
  api_key :: string
  dataset :: "dataframe option"
  cleaned_dataset :: "dataframe option"
  model_calls :: nat

text \<open>
  The collaborators. \<open>pd.read_csv(path, sep=sep)\<close> gives a table or raises;
  \<open>self.model.generate_content(prompt).text\<close> gives the response text or raises. The
  client may answer the same prompt differently at each request, so it takes the number
  of earlier requests as well. The prompt of lines 41 and 90 is a fixed template around
  two values, the game's name and the normalised mechanics, and is represented by them.
\<close>

type_synonym reader = "string \<Rightarrow> string \<Rightarrow> exn + dataframe"

record prompt =
  prompt_game :: pyval
  prompt_mechanics :: string

type_synonym client = "nat \<Rightarrow> prompt \<Rightarrow> exn + string"

definition init :: "string \<Rightarrow> string \<Rightarrow> analyser" where
  "init path key =
     \<lparr>dataset_path = path, api_key = key, dataset = None, cleaned_dataset = None,
      model_calls = 0\<rparr>"

subsection \<open>\<open>load_dataset_clean\<close> (lines 13 to 27)\<close>

definition required_columns :: "string list" where
  "required_columns = [''Name'', ''Year Published'', ''Mechanics'']"

definition isna :: "pyval \<Rightarrow> bool" where
  "isna v \<longleftrightarrow> v = PNone \<or> v = PNaN"

text \<open>\<open>df.dropna(subset=cols)\<close>: a row goes when one of its cells under \<open>cols\<close> is missing.\<close>

definition dropna :: "string list \<Rightarrow> dataframe \<Rightarrow> dataframe" where
  "dropna cols df = df\<lparr>rows := filter (\<lambda>r. list_all (\<lambda>c. \<not> isna (r c)) cols) (rows df)\<rparr>"

text \<open>Python's \<open>v == 0\<close> on a cell: numbers compare by value, \<open>False\<close> equals 0.\<close>

fun eq_zero :: "pyval \<Rightarrow> bool" where
  "eq_zero (PInt i) = (i = 0)"
| "eq_zero (PFloat q) = (q = 0)"
| "eq_zero (PBool b) = (\<not> b)"
| "eq_zero _ = False"

definition load_dataset_clean :: "reader \<Rightarrow> analyser \<Rightarrow> string \<Rightarrow> (exn + dataframe) \<times> analyser" where
  "load_dataset_clean read_csv self sep =
     (case read_csv (dataset_path self) sep of
        Inl e \<Rightarrow>
          (case e of
             FileNotFoundError _ \<Rightarrow>
               (Inl (FileNotFoundError (''File not found: '' @ dataset_path self)), self)
           | _ \<Rightarrow> (Inl e, self))
      | Inr df \<Rightarrow>
          (let self1 = self\<lparr>dataset := Some df\<rparr> in
           if \<not> list_all (\<lambda>col. col \<in> set (columns df)) required_columns
           then (Inl ValueError_missing_columns, self1)
           else
             (let c1 = dropna required_columns df;
                  c2 = c1\<lparr>rows := filter (\<lambda>r. \<not> eq_zero (r ''Year Published'')) (rows c1)\<rparr>
              in (Inr c2, self1\<lparr>cleaned_dataset := Some c2\<rparr>))))"

subsection \<open>\<open>verify_mechanics_with_genai\<close> (lines 30 to 54)\<close>

text \<open>Lines 39 and 86: the three replacements, in this order.\<close>

definition mechanics_prompt :: "string \<Rightarrow> string" where
  "mechanics_prompt mechanics =
     replace '' or '' '', '' (replace '' and '' '', '' (replace '','' '', '' mechanics))"

text \<open>
  Line 47 divides with \<open>/\<close>, Python's true division of two integers. The two
  \<open>print\<close> calls of lines 50 to 52 are not modelled.
\<close>

definition verify_mechanics_with_genai ::
  "client \<Rightarrow> nat \<Rightarrow> analyser \<Rightarrow> string \<Rightarrow> (exn + rat) \<times> analyser" where
  "verify_mechanics_with_genai gm maxd self game_name =
     (case cleaned_dataset self of
        None \<Rightarrow> (Inl (AttributeError ''cleaned_dataset''), self)
      | Some cd \<Rightarrow>
          (case filter (\<lambda>r. r ''Name'' = PStr game_name) (rows cd) of
             [] \<Rightarrow> (Inl (ValueError_game_not_found game_name), self)
           | r # _ \<Rightarrow>
               (case r ''Mechanics'' of
                  PStr mechanics \<Rightarrow>
                    (let p = \<lparr>prompt_game = PStr game_name,
                              prompt_mechanics = mechanics_prompt mechanics\<rparr>;
                         response = gm (model_calls self) p;
                         self1 = self\<lparr>model_calls := model_calls self + 1\<rparr>
                     in case response of
                          Inl e \<Rightarrow> (Inl e, self1)
                        | Inr text \<Rightarrow>
                            (let number_of_mechanics = count mechanics CHR '','' + 1
                             in case parse_count maxd text of
                                  Inl e \<Rightarrow> (Inl e, self1)
                                | Inr n \<Rightarrow>
                                    (case truediv n (int number_of_mechanics) of
                                       Inl e \<Rightarrow> (Inl e, self1)
                                     | Inr accuracy \<Rightarrow> (Inr accuracy, self1))))
                | _ \<Rightarrow> (Inl (AttributeError ''replace''), self))))"

subsection \<open>\<open>get_top_200_list\<close> (lines 57 to 71)\<close>

text \<open>
  A record of \<open>to_dict(orient='records')\<close> is a Python dictionary: an association list
  in which the first binding of a key is the one that counts. \<open>d[k]\<close> raises \<open>KeyError\<close>
  for a key that is absent; \<open>len(d)\<close> is the number of keys.
\<close>

type_synonym game = "(string \<times> pyval) list"

definition getitem :: "game \<Rightarrow> string \<Rightarrow> exn + pyval" where
  "getitem d k = (case map_of d k of None \<Rightarrow> Inl (KeyError k) | Some v \<Rightarrow> Inr v)"

definition len :: "game \<Rightarrow> nat" where
  "len d = length (remdups (map fst d))"

definition to_dict_records :: "dataframe \<Rightarrow> game list" where
  "to_dict_records df = map (\<lambda>r. map (\<lambda>c. (c, r c)) (columns df)) (rows df)"

definition head :: "nat \<Rightarrow> dataframe \<Rightarrow> dataframe" where
  "head n df = df\<lparr>rows := take n (rows df)\<rparr>"

text \<open>
  \<open>DataFrame.sort_values(by, ascending)\<close> is pandas code running numpy's default sort;
  it is a parameter here.
\<close>

type_synonym sorter = "string \<Rightarrow> bool \<Rightarrow> dataframe \<Rightarrow> exn + dataframe"

definition get_top_200_list ::
  "sorter \<Rightarrow> analyser \<Rightarrow> string \<Rightarrow> bool \<Rightarrow> exn + game list" where
  "get_top_200_list sort_values self sort_by ascending =
     (case cleaned_dataset self of
        None \<Rightarrow> Inl (AttributeError ''cleaned_dataset'')
      | Some cd \<Rightarrow>
          if sort_by \<notin> set (columns cd) then Inl (ValueError_column_not_found sort_by)
          else (case sort_values sort_by ascending cd of
                  Inl e \<Rightarrow> Inl e
                | Inr sorted_cd \<Rightarrow> Inr (to_dict_records (head 200 sorted_cd))))"

subsection \<open>\<open>calculate_total_applicable_mechanics\<close> (lines 74 to 137)\<close>

text \<open>
  A \<open>collections.Counter\<close> is a dictionary from keys to counts that keeps the order in
  which keys first came. \<open>update\<close> with a list counts each element once;
  \<open>most_common()\<close> sorts by falling count and leaves equal counts in that order.
\<close>

type_synonym counter = "(string \<times> nat) list"

fun counter_incr :: "counter \<Rightarrow> string \<Rightarrow> counter" where
  "counter_incr [] k = [(k, 1)]"
| "counter_incr ((k', n) # c) k =
     (if k' = k then (k', n + 1) # c else (k', n) # counter_incr c k)"

definition counter_update :: "counter \<Rightarrow> string list \<Rightarrow> counter" where
  "counter_update c ks = foldl counter_incr c ks"

definition keys :: "counter \<Rightarrow> string list" where
  "keys c = map fst c"

definition most_common :: "counter \<Rightarrow> (string \<times> nat) list" where
  "most_common c = sort_key (\<lambda>(k, n). - int n) c"

text \<open>
  The accumulators of the loop, the client's request count, and the per-game lines the
  loop prints (line 98 and line 106).
\<close>

datatype line = Processed pyval int | Error_processing pyval exn

record loop_state =
  total_applicable_mechanics :: int
  mechanic_counter :: counter
  all_mechanics :: "string set"
  calls :: nat
  printed :: "line list"

text \<open>
  The body of the \<open>try\<close> (lines 84 to 104) for one game: the exception that ended it,
  if one did, and the state at that point. What was assigned before the exception stays
  assigned.
\<close>

definition try_body :: "client \<Rightarrow> nat \<Rightarrow> loop_state \<Rightarrow> game \<Rightarrow> exn option \<times> loop_state" where
  "try_body gm maxd st game =
     (case getitem game ''Name'' of
        Inl e \<Rightarrow> (Some e, st)
      | Inr game_name \<Rightarrow>
     (case getitem game ''Mechanics'' of
        Inl e \<Rightarrow> (Some e, st)
      | Inr (PStr mechanics) \<Rightarrow>
          (let p = \<lparr>prompt_game = game_name, prompt_mechanics = mechanics_prompt mechanics\<rparr>;
               st1 = st\<lparr>all_mechanics := all_mechanics st \<union> set (split CHR '','' mechanics)\<rparr>;
               response = gm (calls st1) p;
               st2 = st1\<lparr>calls := calls st1 + 1\<rparr>
           in case response of
                Inl e \<Rightarrow> (Some e, st2)
              | Inr text \<Rightarrow>
           (case parse_count maxd text of
                Inl e \<Rightarrow> (Some e, st2)
              | Inr applicable_mechanics \<Rightarrow>
           (let st3 = st2\<lparr>total_applicable_mechanics :=
                            total_applicable_mechanics st2 + applicable_mechanics\<rparr>
            in case parse_count maxd text of
                Inl e \<Rightarrow> (Some e, st3)
              | Inr applicable_mechanics_count \<Rightarrow>
           (let st4 = st3\<lparr>printed := printed st3 @ [Processed game_name applicable_mechanics]\<rparr>;
                applicable_mechanics_list =
                  slice_to (split CHR '','' mechanics) applicable_mechanics_count;
                st5 = st4\<lparr>mechanic_counter :=
                            counter_update (mechanic_counter st4)
                              (map strip applicable_mechanics_list)\<rparr>
            in (None, st5)))))
      | Inr _ \<Rightarrow> (Some (AttributeError ''replace''), st)))"

text \<open>
  One turn of the loop: the \<open>try\<close> and its handler (lines 105 and 106). The handler
  reads \<open>game['Name']\<close> again; an exception there is not caught by anything.
\<close>

definition process_game :: "client \<Rightarrow> nat \<Rightarrow> loop_state \<Rightarrow> game \<Rightarrow> exn option \<times> loop_state" where
  "process_game gm maxd st game =
     (case try_body gm maxd st game of
        (None, st') \<Rightarrow> (None, st')
      | (Some err, st') \<Rightarrow>
          (case getitem game ''Name'' of
             Inl e \<Rightarrow> (Some e, st')
           | Inr game_name \<Rightarrow>
               (None, st'\<lparr>printed := printed st' @ [Error_processing game_name err]\<rparr>)))"

fun for_games :: "client \<Rightarrow> nat \<Rightarrow> loop_state \<Rightarrow> game list \<Rightarrow> exn option \<times> loop_state" where
  "for_games gm maxd st [] = (None, st)"
| "for_games gm maxd st (game # top_200_list) =
     (case process_game gm maxd st game of
        (None, st') \<Rightarrow> for_games gm maxd st' top_200_list
      | (Some e, st') \<Rightarrow> (Some e, st'))"

record aggregate =
  average_applicable_mechanics :: rat
  least_ten_mechanics :: "(string \<times> nat) list"
  top_ten_mechanics :: "(string \<times> nat) list"
  unassigned_mechanics :: "string set"

definition initial_state :: "analyser \<Rightarrow> loop_state" where
  "initial_state self =
     \<lparr>total_applicable_mechanics = 0, mechanic_counter = [], all_mechanics = {},
      calls = model_calls self, printed = []\<rparr>"

text \<open>
  Line 109 sums \<open>len\<close> over the records of the list; line 111 divides by that sum
  with \<open>/\<close>, outside the \<open>try\<close>, so what the division raises leaves the function. The
  summary lines printed after the loop are not modelled.
\<close>

definition calculate_total_applicable_mechanics ::
  "client \<Rightarrow> nat \<Rightarrow> analyser \<Rightarrow> game list \<Rightarrow> (exn + aggregate) \<times> analyser" where
  "calculate_total_applicable_mechanics gm maxd self top_200_list =
     (case cleaned_dataset self of
        None \<Rightarrow> (Inl (AttributeError ''cleaned_dataset''), self)
      | Some _ \<Rightarrow>
          (case for_games gm maxd (initial_state self) top_200_list of
             (Some e, st) \<Rightarrow> (Inl e, self\<lparr>model_calls := calls st\<rparr>)
           | (None, st) \<Rightarrow>
               (let self' = self\<lparr>model_calls := calls st\<rparr>;
                    total_length_top_200 = sum_list (map len top_200_list)
                in case truediv (total_applicable_mechanics st) (int total_length_top_200) of
                     Inl e \<Rightarrow> (Inl e, self')
                   | Inr average \<Rightarrow>
                       (Inr \<lparr>average_applicable_mechanics = average,
                             least_ten_mechanics =
                               take 10 (rev (most_common (mechanic_counter st))),
                             top_ten_mechanics = take 10 (most_common (mechanic_counter st)),
                             unassigned_mechanics =
                               all_mechanics st - set (keys (mechanic_counter st))\<rparr>,
                        self'))))"

section \<open>Reference notions\<close>

text \<open>
  The notions the properties below are stated with: what a result is said to be, apart
  from how the program computes it.
\<close>

text \<open>The number a string of decimal digits denotes, by positional weights.\<close>

definition decimal :: "string \<Rightarrow> int" where
  "decimal ds = (\<Sum>i<length ds. digit_val (ds ! i) * 10 ^ (length ds - 1 - i))"

text \<open>
  A record can be put to the client when it has a name and its mechanics are a string;
  \<open>raw_mechanics\<close> gives that string.
\<close>

definition has_name :: "game \<Rightarrow> bool" where
  "has_name g \<longleftrightarrow> map_of g ''Name'' \<noteq> None"

definition name_and_mechanics :: "game \<Rightarrow> (pyval \<times> string) option" where
  "name_and_mechanics g =
     (case map_of g ''Name'' of
        None \<Rightarrow> None
      | Some name \<Rightarrow> (case map_of g ''Mechanics'' of Some (PStr m) \<Rightarrow> Some (name, m) | _ \<Rightarrow> None))"

definition raw_mechanics :: "game \<Rightarrow> string option" where
  "raw_mechanics g = map_option snd (name_and_mechanics g)"

text \<open>
  The applicable count of a game that is put to the client as request number \<open>n\<close>:
  the integer parsed from the response, if there is a response and it parses.
\<close>

definition applicable_count :: "client \<Rightarrow> nat \<Rightarrow> nat \<Rightarrow> game \<Rightarrow> int option" where
  "applicable_count gm maxd n g =
     (case name_and_mechanics g of
        None \<Rightarrow> None
      | Some (name, m) \<Rightarrow>
          (case gm n \<lparr>prompt_game = name, prompt_mechanics = mechanics_prompt m\<rparr> of
             Inl e \<Rightarrow> None
           | Inr response \<Rightarrow>
               (case parse_count maxd response of Inl e \<Rightarrow> None | Inr k \<Rightarrow> Some k)))"

text \<open>
  The applicable counts along a sequence of games, the first of which meets a client
  that has answered \<open>n\<close> requests; each game that can be put to the client takes one
  request.
\<close>

fun applicable_counts :: "client \<Rightarrow> nat \<Rightarrow> nat \<Rightarrow> game list \<Rightarrow> int option list" where
  "applicable_counts gm maxd n [] = []"
| "applicable_counts gm maxd n (g # gs) =
     applicable_count gm maxd n g
       # applicable_counts gm maxd (if raw_mechanics g = None then n else Suc n) gs"

definition parsed_total :: "int option list \<Rightarrow> int" where
  "parsed_total cs = (\<Sum>c\<leftarrow>cs. case c of None \<Rightarrow> 0 | Some k \<Rightarrow> k)"

text \<open>The comma-split substrings of a game's mechanics, as they stand.\<close>

definition split_mechanics :: "game \<Rightarrow> string set" where
  "split_mechanics g = (case raw_mechanics g of None \<Rightarrow> {} | Some m \<Rightarrow> set (split CHR '','' m))"

text \<open>The entries of the split mechanics that are assigned for a game with applicable count \<open>c\<close>, as they stand.\<close>

definition assigned :: "game \<Rightarrow> int option \<Rightarrow> string list" where
  "assigned g c =
     (case (raw_mechanics g, c) of
        (Some m, Some k) \<Rightarrow> slice_to (split CHR '','' m) k
      | _ \<Rightarrow> [])"

text \<open>
  \<open>u\<close> is the entry \<open>s\<close> trimmed: \<open>s\<close> is \<open>u\<close> between two runs of white space, and \<open>u\<close>
  neither begins nor ends with white space.
\<close>

definition trimmed :: "string \<Rightarrow> string \<Rightarrow> bool" where
  "trimmed s u \<longleftrightarrow>
     (\<exists>ws1 ws2. s = ws1 @ u @ ws2 \<and> list_all isspace ws1 \<and> list_all isspace ws2)
     \<and> (u = [] \<or> (\<not> isspace (hd u) \<and> \<not> isspace (last u)))"

text \<open>The number of commas in a string: the number of positions that hold one.\<close>

definition commas :: "string \<Rightarrow> nat" where
  "commas m = card {i. i < length m \<and> m ! i = CHR '',''}"

text \<open>
  The doubles, the doubles nearest to a rational, and the rationals that round to a
  double (those below the midpoint of the largest double and \<open>2 ^ 1024\<close>).
\<close>

definition is_double :: "rat \<Rightarrow> bool" where
  "is_double x \<longleftrightarrow>
     (\<exists>m e. \<bar>m\<bar> < 2 ^ 53 \<and> - 1074 \<le> e \<and> e \<le> 971 \<and> x = of_int m * 2 powi e)"

definition nearest_double :: "rat \<Rightarrow> rat \<Rightarrow> bool" where
  "nearest_double q x \<longleftrightarrow> is_double x \<and> (\<forall>d. is_double d \<longrightarrow> \<bar>q - x\<bar> \<le> \<bar>q - d\<bar>)"

definition in_double_range :: "rat \<Rightarrow> bool" where
  "in_double_range q \<longleftrightarrow> \<bar>q\<bar> < 2 powi 1024 - 2 powi 970"

text \<open>The rows that cleaning keeps.\<close>

definition complete_row :: "(string \<Rightarrow> pyval) \<Rightarrow> bool" where
  "complete_row r \<longleftrightarrow>
     \<not> isna (r ''Name'') \<and> \<not> isna (r ''Year Published'') \<and> \<not> isna (r ''Mechanics'')"

section \<open>Sample inputs\<close>

text \<open>
  The scenario of three games: the client answers 2 for the first, 5 for the second
  and text that is no number for the third.
\<close>

definition row_of :: "(string \<times> pyval) list \<Rightarrow> string \<Rightarrow> pyval" where
  "row_of kvs c = (case map_of kvs c of None \<Rightarrow> PNaN | Some v \<Rightarrow> v)"

definition g1 :: game where
  "g1 = [(''Name'', PStr ''G1''), (''Year Published'', PInt 2017),
         (''Mechanics'', PStr ''Dice Rolling,Trading,Area Control'')]"

definition g2 :: game where
  "g2 = [(''Name'', PStr ''G2''), (''Year Published'', PInt 2012),
         (''Mechanics'', PStr ''Drafting,Worker Placement'')]"

definition g3 :: game where
  "g3 = [(''Name'', PStr ''G3''), (''Year Published'', PInt 1995),
         (''Mechanics'', PStr ''Auction'')]"

definition unpublished :: game where
  "unpublished = [(''Name'', PStr ''G4''), (''Year Published'', PInt 0),
                  (''Mechanics'', PStr ''Bluffing'')]"

definition incomplete :: game where
  "incomplete = [(''Name'', PStr ''G5''), (''Year Published'', PInt 2001),
                 (''Mechanics'', PNaN)]"

definition nameless :: game where
  "nameless = [(''Year Published'', PInt 1995), (''Mechanics'', PStr ''Auction'')]"

definition sample_table :: dataframe where
  "sample_table =
     \<lparr>columns = [''Name'', ''Year Published'', ''Mechanics''],
      rows = [row_of g1, row_of unpublished, row_of g2, row_of incomplete, row_of g3]\<rparr>"

definition sample_reader :: reader where
  "sample_reader path sep =
     (if path = ''dataset.csv'' then Inr sample_table
      else Inl (FileNotFoundError path))"

definition unreadable :: reader where
  "unreadable path sep = Inl (OtherException ''PermissionError'')"

definition headerless :: reader where
  "headerless path sep = Inr \<lparr>columns = [''Name'', ''Mechanics''], rows = []\<rparr>"

definition sample_client :: client where
  "sample_client n p =
     (if n = 0 then Inr ''2'' else if n = 1 then Inr ''5'' else Inr ''bad'')"

definition minus_one_client :: client where
  "minus_one_client n p = Inr ''-1''"

text \<open>
  A game whose entries carry white space, a client whose answer is beyond the range of a
  double (1 followed by 309 zeros), and one whose answer lies midway between two doubles.
\<close>

definition spaced :: game where
  "spaced = [(''Name'', PStr ''G6''), (''Year Published'', PInt 2020),
             (''Mechanics'', PStr ''Dice Rolling, Trading ,Area Control'')]"

definition huge_client :: client where
  "huge_client n p = Inr (CHR ''1'' # replicate 309 CHR ''0'')"

definition midway_client :: client where
  "midway_client n p = Inr ''9007199254740993''"

definition loaded :: analyser where
  "loaded =
     \<lparr>dataset_path = ''dataset.csv'', api_key = ''key'', dataset = Some sample_table,
      cleaned_dataset = Some \<lparr>columns = [''Name'', ''Year Published'', ''Mechanics''],
                               rows = [row_of g1, row_of g2, row_of g3]\<rparr>,
      model_calls = 0\<rparr>"

section \<open>The parser\<close>

lemma int_space_isspace: "int_space c \<Longrightarrow> isspace c"
  by (auto simp: int_space_def isspace_def)

lemma isdecimal_not_space: "isdecimal c \<Longrightarrow> \<not> isspace c"
  by (auto simp: isdecimal_def isspace_def)

lemma sign_not_space: "c = CHR ''-'' \<or> c = CHR ''+'' \<or> c = CHR ''_'' \<Longrightarrow> \<not> isspace c"
  by (auto simp: isspace_def)

lemma dropWhile_all: "list_all P ws \<Longrightarrow> dropWhile P (ws @ xs) = dropWhile P xs"
  by (induction ws) auto

lemma strip_pad:
  assumes "list_all isspace ws1" "list_all isspace ws2"
  shows "strip (ws1 @ t @ ws2) = strip t"
proof -
  have a: "dropWhile isspace (ws1 @ t @ ws2) = dropWhile isspace (t @ ws2)"
    using assms(1) by (rule dropWhile_all)
  show ?thesis
  proof (cases "list_all isspace t")
    case True
    then have "list_all isspace (t @ ws2)" using assms(2) by simp
    then have e1: "dropWhile isspace (t @ ws2) = []" by (simp add: list_all_iff)
    have e2: "dropWhile isspace t = []" using True by (simp add: list_all_iff)
    show ?thesis unfolding strip_def a e1 e2 by simp
  next
    case False
    then have ex: "\<exists>x\<in>set t. \<not> isspace x" by (simp add: list_all_iff)
    then have b: "dropWhile isspace (t @ ws2) = dropWhile isspace t @ ws2"
      by (auto simp: dropWhile_append)
    have "list_all isspace (rev ws2)" using assms(2) by (simp add: list_all_iff)
    then have "dropWhile isspace (rev ws2 @ rev (dropWhile isspace t)) = dropWhile isspace (rev (dropWhile isspace t))"
      by (rule dropWhile_all)
    then show ?thesis using a b by (simp add: strip_def)
  qed
qed

lemma strip_fixed:
  assumes "t \<noteq> []" "\<not> isspace (hd t)" "\<not> isspace (last t)"
  shows "strip t = t"
proof -
  have "dropWhile isspace t = t" using assms by (cases t) auto
  moreover have "dropWhile isspace (rev t) = rev t" using assms by (cases "rev t") (auto simp: last_rev[symmetric] hd_rev)
  ultimately show ?thesis by (simp add: strip_def)
qed

lemma foldl_horner:
  "foldl (\<lambda>a c. 10 * a + digit_val c) a ds = a * 10 ^ length ds + decimal ds"
proof (induction ds arbitrary: a)
  case Nil
  then show ?case by (simp add: decimal_def)
next
  case (Cons d ds)
  have "decimal (d # ds) = digit_val d * 10 ^ length ds + decimal ds"
    unfolding decimal_def
    by (simp add: lessThan_Suc_eq_insert_0 sum.reindex zero_notin_Suc_image)
  then show ?case using Cons by (simp add: algebra_simps)
qed

lemma digits_value_decimal: "digits_value ds = decimal ds"
  by (simp add: digits_value_def foldl_horner)

lemma no_double_underscore: "CHR ''_'' \<notin> set ds \<Longrightarrow> \<not> double_underscore ds"
  by (induction ds rule: double_underscore.induct) auto

lemma isdecimal_not_underscore: "isdecimal c \<Longrightarrow> c \<noteq> CHR ''_'' \<and> c \<noteq> CHR ''-'' \<and> c \<noteq> CHR ''+'' \<and> \<not> int_space c"
  by (auto simp: isdecimal_def int_space_def)

lemma py_int_digits:
  assumes "ds \<noteq> []" "list_all isdecimal ds" "maxd = 0 \<or> length ds \<le> maxd"
  shows "py_int maxd ds = Inr (decimal ds)"
proof -
  obtain d ds' where ds: "ds = d # ds'" using assms(1) by (cases ds) auto
  have d: "isdecimal d" using assms(2) ds by simp
  have t: "dropWhile int_space ds = ds" using d ds isdecimal_not_underscore by simp
  have all: "\<forall>c\<in>set ds. isdecimal c \<or> c = CHR ''_''" using assms(2) by (simp add: list_all_iff)
  have body: "takeWhile (\<lambda>c. isdecimal c \<or> c = CHR ''_'') ds = ds" using all by simp
  have rest: "dropWhile (\<lambda>c. isdecimal c \<or> c = CHR ''_'') ds = []" using all by simp
  have f: "filter isdecimal ds = ds" using assms(2) by (simp add: list_all_iff)
  have nu: "CHR ''_'' \<notin> set ds" using assms(2) isdecimal_not_underscore by (auto simp: list_all_iff)
  have l: "last ds \<noteq> CHR ''_''" using nu assms(1) last_in_set by metis
  have h: "hd ds \<noteq> CHR ''_'' \<and> hd ds \<noteq> CHR ''-'' \<and> hd ds \<noteq> CHR ''+''" using d ds isdecimal_not_underscore by simp
  show ?thesis
    unfolding py_int_def Let_def t
    using h assms(1,3) l no_double_underscore[OF nu]
    by (auto simp: body rest f digits_value_decimal)
qed

lemma if_chain_Inl:
  "(if a then Inl x else if b then Inl y else if c then Inl x else Inr z) = Inl e
   \<Longrightarrow> e = x \<or> e = y"
  by (simp split: if_splits)

lemma if_chain_Inr:
  "(if a then Inl x else if b then Inl y else if c then Inl x else Inr z) = Inr n
   \<Longrightarrow> \<not> a \<and> \<not> b \<and> \<not> c \<and> n = z"
  by (simp split: if_splits)

lemma py_int_error:
  assumes "py_int maxd s = Inl e"
  shows "is_ValueError e"
proof -
  have "e = ValueError_invalid_literal s \<or> e = ValueError_digit_limit"
    by (rule if_chain_Inl[OF assms[unfolded py_int_def Let_def]])
  then show ?thesis by auto
qed

lemma strip_ends: "strip t = [] \<or> (\<not> isspace (hd (strip t)) \<and> \<not> isspace (last (strip t)))"
proof (cases "strip t = []")
  case True
  then show ?thesis by simp
next
  case False
  let ?a = "dropWhile isspace t"
  let ?b = "dropWhile isspace (rev ?a)"
  have b: "?b \<noteq> []" using False by (simp add: strip_def)
  then have hb: "\<not> isspace (hd ?b)" by (rule hd_dropWhile)
  have a: "?a \<noteq> []"
  proof
    assume e: "?a = []"
    show False using b unfolding e by simp
  qed
  then have ha: "\<not> isspace (hd ?a)" by (rule hd_dropWhile)
  have "last (strip t) = hd ?b" using b by (simp add: strip_def last_rev)
  moreover have "hd (strip t) = last ?b" using b by (simp add: strip_def hd_rev)
  moreover have "last ?b = last (rev ?a)"
  proof -
    have "hd ?a \<in> set (rev ?a)" using a by simp
    then show ?thesis using ha dropWhile_last by metis
  qed
  moreover have "last (rev ?a) = hd ?a" using a by (simp add: last_rev)
  ultimately show ?thesis using ha hb by simp
qed

lemma py_int_shape:
  assumes "py_int maxd s = Inr n" "s = [] \<or> (\<not> isspace (hd s) \<and> \<not> isspace (last s))"
  shows "\<exists>sgn body. s = sgn @ body \<and> (sgn = [] \<or> sgn = ''-'' \<or> sgn = ''+'')
           \<and> body \<noteq> [] \<and> list_all (\<lambda>c. isdecimal c \<or> c = CHR ''_'') body
           \<and> isdecimal (hd body) \<and> isdecimal (last body)
           \<and> n = (if sgn = ''-'' then - 1 else 1) * decimal (filter isdecimal body)"
proof -
  let ?P = "\<lambda>c. isdecimal c \<or> c = CHR ''_''"
  define u where "u = (if s \<noteq> [] \<and> (hd s = CHR ''-'' \<or> hd s = CHR ''+'') then tl s else s)"
  define sgn where "sgn = (if s \<noteq> [] \<and> (hd s = CHR ''-'' \<or> hd s = CHR ''+'') then [hd s] else [])"
  have t: "dropWhile int_space s = s"
    using assms(2) int_space_isspace by (cases s) auto
  have s: "s = sgn @ u" unfolding sgn_def u_def by (cases s) auto
  have p: "takeWhile ?P u \<noteq> []" "hd (takeWhile ?P u) \<noteq> CHR ''_''" "last (takeWhile ?P u) \<noteq> CHR ''_''"
       "dropWhile int_space (dropWhile ?P u) = []"
       "n = (if s \<noteq> [] \<and> hd s = CHR ''-'' then - 1 else 1) * digits_value (filter isdecimal (takeWhile ?P u))"
    using if_chain_Inr[OF assms(1)[unfolded py_int_def Let_def t]] unfolding u_def by simp_all
  have rest: "dropWhile ?P u = []"
  proof (rule ccontr)
    assume ne: "dropWhile ?P u \<noteq> []"
    then have "last (dropWhile ?P u) = last u"
      by (metis last_appendR takeWhile_dropWhile_id)
    moreover have "u \<noteq> []" using ne by auto
    then have "last u = last s" using s by simp
    moreover have "int_space (last (dropWhile ?P u))"
      using p(4) ne last_in_set by (metis (no_types, lifting) dropWhile_eq_Nil_conv)
    moreover have "s \<noteq> []" using s \<open>u \<noteq> []\<close> by simp
    ultimately show False using assms(2) int_space_isspace by auto
  qed
  then have body: "takeWhile ?P u = u" by (metis append_Nil2 takeWhile_dropWhile_id)
  have all: "list_all ?P u" using rest by (simp add: list_all_iff)
  have une: "u \<noteq> []" using p(1) body by simp
  have "?P (hd u)" using all une by (cases u) auto
  then have hd: "isdecimal (hd u)" using p(2) body by auto
  have "?P (last u)" using all une last_in_set by (auto simp: list_all_iff)
  then have last: "isdecimal (last u)" using p(3) body by auto
  have sg: "sgn = [] \<or> sgn = ''-'' \<or> sgn = ''+''" unfolding sgn_def by auto
  have "(s \<noteq> [] \<and> hd s = CHR ''-'') \<longleftrightarrow> sgn = ''-''"
    unfolding sgn_def by auto
  then have "n = (if sgn = ''-'' then - 1 else 1) * decimal (filter isdecimal u)"
    using p(5) body by (simp add: digits_value_decimal)
  then show ?thesis using s sg une all hd last by blast
qed

text \<open>
  Claim C6. \<open>int(response.text.strip())\<close> trims the white space around the response
  and reads what is left as an integer in base 10. For every digit limit the interpreter
  accepts (0 or at least 640): \<open>three\<close>, the empty text and \<open>12abc\<close> are refused with a
  \<open>ValueError\<close>, and \<open>12\<close> between spaces gives 12; white space around a text never
  changes the result; a non-empty string of decimal digits within the limit gives the
  number it denotes; every integer returned is the value of the digits of the trimmed
  text, which is an optional sign and then digits (possibly grouped by underscores); and
  every failure is a \<open>ValueError\<close>.
\<close>

theorem parse_count_base10:
  assumes "maxd = 0 \<or> 640 \<le> maxd"
  shows "parse_count maxd ''three'' = Inl (ValueError_invalid_literal ''three'')
       \<and> parse_count maxd [] = Inl (ValueError_invalid_literal [])
       \<and> parse_count maxd ''12abc'' = Inl (ValueError_invalid_literal ''12abc'')
       \<and> parse_count maxd '' 12 '' = Inr 12
       \<and> (\<forall>ws1 t ws2. list_all isspace ws1 \<and> list_all isspace ws2
             \<longrightarrow> parse_count maxd (ws1 @ t @ ws2) = parse_count maxd t)
       \<and> (\<forall>ds. ds \<noteq> [] \<and> list_all isdecimal ds \<and> (maxd = 0 \<or> length ds \<le> maxd)
             \<longrightarrow> parse_count maxd ds = Inr (decimal ds))
       \<and> (\<forall>text n. parse_count maxd text = Inr n
             \<longrightarrow> (\<exists>sgn body. strip text = sgn @ body \<and> (sgn = [] \<or> sgn = ''-'' \<or> sgn = ''+'')
                    \<and> body \<noteq> [] \<and> list_all (\<lambda>c. isdecimal c \<or> c = CHR ''_'') body
                    \<and> isdecimal (hd body) \<and> isdecimal (last body)
                    \<and> n = (if sgn = ''-'' then - 1 else 1) * decimal (filter isdecimal body)))
       \<and> (\<forall>text e. parse_count maxd text = Inl e \<longrightarrow> is_ValueError e)"
proof -
  note defs = parse_count_def py_int_def strip_def isspace_def int_space_def isdecimal_def
    digits_value_def digit_val_def
  have e1: "parse_count maxd ''three'' = Inl (ValueError_invalid_literal ''three'')"
    by (simp add: defs)
  have e2: "parse_count maxd [] = Inl (ValueError_invalid_literal [])"
    by (simp add: defs)
  have e3: "parse_count maxd ''12abc'' = Inl (ValueError_invalid_literal ''12abc'')"
    using assms by (auto simp: defs Let_def)
  have e4: "parse_count maxd '' 12 '' = Inr 12"
    using assms by (auto simp: defs Let_def)
  have trim: "parse_count maxd (ws1 @ t @ ws2) = parse_count maxd t"
    if "list_all isspace ws1 \<and> list_all isspace ws2" for ws1 t ws2
    using that by (simp add: parse_count_def strip_pad)
  have dec: "parse_count maxd ds = Inr (decimal ds)"
    if h: "ds \<noteq> [] \<and> list_all isdecimal ds \<and> (maxd = 0 \<or> length ds \<le> maxd)" for ds
  proof -
    have "\<not> isspace (hd ds)" "\<not> isspace (last ds)"
      using h isdecimal_not_space last_in_set by (auto simp: list_all_iff)
    then have "strip ds = ds" using h strip_fixed by blast
    then show ?thesis using h by (simp add: parse_count_def py_int_digits)
  qed
  have shape: "\<exists>sgn body. strip r = sgn @ body \<and> (sgn = [] \<or> sgn = ''-'' \<or> sgn = ''+'')
                    \<and> body \<noteq> [] \<and> list_all (\<lambda>c. isdecimal c \<or> c = CHR ''_'') body
                    \<and> isdecimal (hd body) \<and> isdecimal (last body)
                    \<and> n = (if sgn = ''-'' then - 1 else 1) * decimal (filter isdecimal body)"
    if "parse_count maxd r = Inr n" for r n
    using that strip_ends[of r] unfolding parse_count_def by (rule py_int_shape)
  have err: "is_ValueError e" if "parse_count maxd r = Inl e" for r e
    using that unfolding parse_count_def by (rule py_int_error)
  show ?thesis
    by (intro conjI allI impI) (rule e1 e2 e3 e4 | erule trim dec shape err)+
qed

text \<open>The default limit of 4300 digits, the examples, and \<open>407\<close> after a tab and a space.\<close>

theorem parse_count_base10_witness:
  "(4300 = (0::nat) \<or> 640 \<le> (4300::nat))
   \<and> parse_count 4300 '' 12 '' = Inr 12
   \<and> parse_count 4300 ''12abc'' = Inl (ValueError_invalid_literal ''12abc'')
   \<and> list_all isspace [CHR 0x09, CHR '' ''] \<and> list_all isspace [CHR 0x0A]
   \<and> parse_count 4300 ([CHR 0x09, CHR '' ''] @ ''407'' @ [CHR 0x0A]) = parse_count 4300 ''407''
   \<and> ''407'' \<noteq> [] \<and> list_all isdecimal ''407'' \<and> length ''407'' \<le> (4300::nat)
   \<and> parse_count 4300 ''407'' = Inr (decimal ''407'')
   \<and> decimal ''407'' = 407"
proof -
  have a: "4300 = (0::nat) \<or> 640 \<le> (4300::nat)" by simp
  note t = parse_count_base10[OF a]
  have w: "list_all isspace [CHR 0x09, CHR '' ''] \<and> list_all isspace [CHR 0x0A]"
    by (simp add: isspace_def)
  have d: "''407'' \<noteq> [] \<and> list_all isdecimal ''407'' \<and> (4300 = (0::nat) \<or> length ''407'' \<le> (4300::nat))"
    by (simp add: isdecimal_def)
  have v: "decimal ''407'' = 407"
    by (simp add: decimal_def digit_val_def lessThan_Suc)
  have t3: "parse_count 4300 ''12abc'' = Inl (ValueError_invalid_literal ''12abc'')"
    using t by (elim conjE)
  have t4: "parse_count 4300 '' 12 '' = Inr 12"
    using t by (elim conjE)
  have q5: "\<forall>ws1 t ws2. list_all isspace ws1 \<and> list_all isspace ws2
             \<longrightarrow> parse_count 4300 (ws1 @ t @ ws2) = parse_count 4300 t"
    using t by (elim conjE)
  have t5: "parse_count 4300 ([CHR 0x09, CHR '' ''] @ ''407'' @ [CHR 0x0A]) = parse_count 4300 ''407''"
    by (rule q5[rule_format, OF w])
  have q6: "\<forall>ds. ds \<noteq> [] \<and> list_all isdecimal ds \<and> (4300 = (0::nat) \<or> length ds \<le> (4300::nat))
             \<longrightarrow> parse_count 4300 ds = Inr (decimal ds)"
    using t by (elim conjE)
  have t6: "parse_count 4300 ''407'' = Inr (decimal ''407'')"
    by (rule q6[rule_format, OF d])
  have d3: "length ''407'' \<le> (4300::nat)" by simp
  show ?thesis
    by (intro conjI) (fact a t3 t4 w[THEN conjunct1] w[THEN conjunct2] t5
        d[THEN conjunct1] d[THEN conjunct2, THEN conjunct1] d3 t6 v)+
qed

lemma strip_decomp:
  "\<exists>ws1 ws2. s = ws1 @ strip s @ ws2 \<and> list_all isspace ws1 \<and> list_all isspace ws2"
proof -
  let ?a = "dropWhile isspace s"
  have 1: "s = takeWhile isspace s @ ?a" by simp
  have "rev (takeWhile isspace (rev ?a) @ dropWhile isspace (rev ?a)) = rev (rev ?a)"
    by (simp only: takeWhile_dropWhile_id)
  then have 2: "?a = strip s @ rev (takeWhile isspace (rev ?a))"
    by (simp only: rev_append rev_rev_ident strip_def)
  have 3: "list_all isspace (takeWhile isspace s)"
    by (simp add: list_all_iff) (meson set_takeWhileD)
  have 4: "list_all isspace (rev (takeWhile isspace (rev ?a)))"
    by (simp add: list_all_iff) (meson set_takeWhileD)
  have "s = takeWhile isspace s @ strip s @ rev (takeWhile isspace (rev ?a))"
    using 1 2 by metis
  then show ?thesis using 3 4 by blast
qed

lemma trimmed_iff: "trimmed s u \<longleftrightarrow> u = strip s"
proof
  assume t: "trimmed s u"
  then obtain ws1 ws2 where s: "s = ws1 @ u @ ws2" and w: "list_all isspace ws1" "list_all isspace ws2"
    unfolding trimmed_def by blast
  have "strip s = strip u" unfolding s using w by (rule strip_pad)
  also have "\<dots> = u"
  proof (cases "u = []")
    case True
    then show ?thesis by (simp add: strip_def)
  next
    case False
    then show ?thesis using t strip_fixed unfolding trimmed_def by blast
  qed
  finally show "u = strip s" by simp
next
  assume "u = strip s"
  then show "trimmed s u"
    unfolding trimmed_def using strip_decomp[of s] strip_ends[of s] by simp
qed

section \<open>True division\<close>

lemma bit_length_bounds:
  "0 < k \<Longrightarrow> 2 ^ (bit_length k - 1) \<le> k \<and> k < 2 ^ bit_length k"
proof (induction k rule: bit_length.induct)
  case (1 k)
  show ?case
  proof (cases "k div 2 = 0")
    case True
    then have "k = 1" using "1.prems" by linarith
    then show ?thesis by (simp add: bit_length.simps)
  next
    case False
    then have pos: "0 < k div 2" using "1.prems" by linarith
    have ih: "2 ^ (bit_length (k div 2) - 1) \<le> k div 2 \<and> k div 2 < 2 ^ bit_length (k div 2)"
      using "1.IH" "1.prems" pos by simp
    have b: "bit_length k = Suc (bit_length (k div 2))"
      using "1.prems" by (subst bit_length.simps) simp
    have bpos: "0 < bit_length (k div 2)"
      using pos by (subst bit_length.simps) simp
    then obtain j where j: "bit_length (k div 2) = Suc j" by (cases "bit_length (k div 2)") auto
    have lo: "2 * 2 ^ j \<le> k" using ih j by simp linarith
    have hi: "k < 2 * 2 ^ Suc j" using ih j by simp linarith
    show ?thesis using lo hi b j by simp
  qed
qed

lemma bit_length_pos: "0 < k \<Longrightarrow> 0 < bit_length k"
  by (subst bit_length.simps) simp

lemma ilog2_bounds:
  assumes "0 < a"
  shows "2 powi (ilog2 a) \<le> a \<and> a < 2 powi (ilog2 a + 1)"
proof (cases "1 \<le> a")
  case True
  let ?n = "\<lfloor>a\<rfloor>"
  have n: "0 < ?n" using True by linarith
  from bit_length_bounds[OF n] bit_length_pos[OF n]
  obtain j where j: "bit_length ?n = Suc j" and lo: "2 ^ j \<le> ?n" and hi: "?n < 2 ^ Suc j"
    by (cases "bit_length ?n") auto
  have il: "ilog2 a = int j" using True j by (simp add: ilog2_def)
  have "(2::rat) ^ j = of_int (2 ^ j)" by simp
  also have "\<dots> \<le> of_int ?n" using lo by (simp only: of_int_le_iff)
  also have "\<dots> \<le> a" by simp
  finally have l: "(2::rat) ^ j \<le> a" .
  have n1: "?n + 1 \<le> 2 ^ Suc j" using hi by linarith
  have "a < of_int (?n + 1)" by linarith
  also have "\<dots> \<le> of_int (2 ^ Suc j)" using n1 by (simp only: of_int_le_iff)
  also have "\<dots> = (2::rat) ^ Suc j" by simp
  finally have h: "a < (2::rat) ^ Suc j" .
  have "(2::rat) powi (int j + 1) = 2 ^ Suc j"
    by (metis of_nat_Suc power_int_of_nat add.commute)
  then show ?thesis using l h il by simp
next
  case False
  let ?x = "1 / a"
  let ?k = "\<lceil>?x\<rceil> - 1"
  have x1: "1 < ?x" using False assms by simp
  have k: "0 < ?k" using x1 by linarith
  from bit_length_bounds[OF k] bit_length_pos[OF k]
  obtain j where j: "bit_length ?k = Suc j" and lo: "2 ^ j \<le> ?k" and hi: "?k < 2 ^ Suc j"
    by (cases "bit_length ?k") auto
  have il: "ilog2 a = - int (Suc j)" using False j by (simp add: ilog2_def)
  have kx: "of_int ?k < ?x" by linarith
  have "(2::rat) ^ j = of_int (2 ^ j)" by simp
  also have "\<dots> \<le> of_int ?k" using lo by (simp only: of_int_le_iff)
  also have "\<dots> < ?x" by (rule kx)
  finally have l: "(2::rat) ^ j < ?x" .
  have k1: "?k + 1 \<le> 2 ^ Suc j" using hi by linarith
  have "?x \<le> of_int (?k + 1)" by simp
  also have "\<dots> \<le> of_int (2 ^ Suc j)" using k1 by (simp only: of_int_le_iff)
  also have "\<dots> = (2::rat) ^ Suc j" by simp
  finally have h: "?x \<le> (2::rat) ^ Suc j" .
  have a1: "a < 1 / 2 ^ j" using l assms by (simp add: field_simps)
  have a2: "1 / 2 ^ Suc j \<le> a" using h assms by (simp add: field_simps)
  have p1: "(2::rat) powi (- int (Suc j)) = 1 / 2 ^ Suc j"
    by (simp add: power_int_minus_divide del: of_nat_Suc power_Suc)
  have p2: "(2::rat) powi (- int (Suc j) + 1) = 1 / 2 ^ j"
    by (simp add: power_int_minus_divide)
  show ?thesis unfolding il p1 p2 using a1 a2 by simp
qed

lemma round_half_even_cases:
  "round_half_even x = \<lfloor>x\<rfloor> \<or> round_half_even x = \<lfloor>x\<rfloor> + 1"
  by (simp add: round_half_even_def Let_def)

lemma round_half_even_dist:
  "\<bar>x - of_int (round_half_even x)\<bar> \<le> x - of_int \<lfloor>x\<rfloor>
   \<and> \<bar>x - of_int (round_half_even x)\<bar> \<le> of_int \<lfloor>x\<rfloor> + 1 - x"
proof -
  have "of_int \<lfloor>x\<rfloor> \<le> x" "x < of_int \<lfloor>x\<rfloor> + 1" by linarith+
  then show ?thesis
    by (auto simp: round_half_even_def Let_def abs_if)
qed

lemma round_half_even_nearest:
  "\<bar>x - of_int (round_half_even x)\<bar> \<le> \<bar>x - of_int y\<bar>"
proof (cases "y \<le> \<lfloor>x\<rfloor>")
  case True
  then have "(of_int y :: rat) \<le> of_int \<lfloor>x\<rfloor>" by (simp only: of_int_le_iff)
  moreover have "of_int \<lfloor>x\<rfloor> \<le> x" by simp
  ultimately have "x - of_int \<lfloor>x\<rfloor> \<le> \<bar>x - of_int y\<bar>" by linarith
  then show ?thesis using round_half_even_dist[of x] by linarith
next
  case False
  then have "\<lfloor>x\<rfloor> + 1 \<le> y" by simp
  then have "(of_int (\<lfloor>x\<rfloor> + 1) :: rat) \<le> of_int y" by (simp only: of_int_le_iff)
  moreover have "x < of_int \<lfloor>x\<rfloor> + 1" by linarith
  ultimately have "of_int \<lfloor>x\<rfloor> + 1 - x \<le> \<bar>x - of_int y\<bar>" by simp
  then show ?thesis using round_half_even_dist[of x] by linarith
qed

lemma double_multiple:
  assumes "is_double d" "- 1074 \<le> e" "e = - 1074 \<or> 2 powi (e + 52) \<le> \<bar>d\<bar>"
  shows "\<exists>y::int. d = of_int y * 2 powi e"
proof -
  from assms(1) obtain m e' where m: "\<bar>m\<bar> < 2 ^ 53" and e': "- 1074 \<le> e'" "e' \<le> 971"
    and d: "d = of_int m * 2 powi e'"
    unfolding is_double_def by blast
  have le: "e \<le> e'"
  proof (rule ccontr)
    assume "\<not> e \<le> e'"
    then have lt: "e' \<le> e - 1" by simp
    then have "e \<noteq> - 1074" using e' by simp
    then have big: "2 powi (e + 52) \<le> \<bar>d\<bar>" using assms(3) by simp
    have "\<bar>d\<bar> = \<bar>of_int m\<bar> * 2 powi e'" unfolding d by (simp add: abs_mult)
    also have "\<dots> \<le> \<bar>of_int m\<bar> * 2 powi (e - 1)"
      using lt by (intro mult_left_mono power_int_increasing) auto
    also have "\<dots> < 2 ^ 53 * 2 powi (e - 1)"
    proof -
      have "\<bar>(of_int m :: rat)\<bar> < 2 ^ 53" using m by (metis of_int_abs of_int_less_iff of_int_numeral of_int_power)
      then show ?thesis by (intro mult_strict_right_mono) auto
    qed
    also have "\<dots> = 2 powi (e + 52)"
    proof -
      have eq: "e + 52 = 53 + (e - 1)" by simp
      have "(2::rat) powi (e + 52) = 2 powi (53 + (e - 1))" by (simp only: eq)
      also have "\<dots> = 2 powi 53 * 2 powi (e - 1)" by (rule power_int_add) simp
      finally show ?thesis by simp
    qed
    finally show False using big by simp
  qed
  have eq': "e' = (e' - e) + e" by simp
  have "(2::rat) powi e' = 2 powi ((e' - e) + e)" by (subst eq') (rule refl)
  also have "\<dots> = 2 powi (e' - e) * 2 powi e" by (rule power_int_add) simp
  also have "(2::rat) powi (e' - e) = 2 ^ nat (e' - e)" using le by (simp add: power_int_nonneg_exp)
  finally have "d = of_int (m * 2 ^ nat (e' - e)) * 2 powi e" unfolding d by simp
  then show ?thesis by blast
qed

lemma powi_split: "(2::rat) powi (e + int n) = 2 ^ n * 2 powi e"
proof -
  have "(2::rat) powi (e + int n) = 2 powi e * 2 powi (int n)" by (rule power_int_add) simp
  then show ?thesis by simp
qed

lemma scaled_bounds:
  assumes "0 < a"
  defines "e \<equiv> max (- 1074) (ilog2 a - 52)"
  shows "0 < a / 2 powi e" and "a / 2 powi e < 2 ^ 53"
    and "e \<noteq> - 1074 \<Longrightarrow> 2 ^ 52 \<le> a / 2 powi e"
proof -
  have pw: "0 < (2::rat) powi e" by simp
  show "0 < a / 2 powi e" using assms(1) pw by simp
  have "ilog2 a + 1 \<le> e + 53" unfolding e_def by simp
  then have "(2::rat) powi (ilog2 a + 1) \<le> 2 powi (e + 53)"
    by (intro power_int_increasing) auto
  also have "\<dots> = 2 ^ 53 * 2 powi e" using powi_split[of e 53] by simp
  finally have "a < 2 ^ 53 * 2 powi e" using ilog2_bounds[OF assms(1)] by simp
  then show "a / 2 powi e < 2 ^ 53" using pw by (simp add: field_simps)
  show "2 ^ 52 \<le> a / 2 powi e" if "e \<noteq> - 1074"
  proof -
    have "e = ilog2 a - 52" using that unfolding e_def by simp
    then have "ilog2 a = e + 52" by simp
    then have "(2::rat) powi (e + 52) \<le> a" using ilog2_bounds[OF assms(1)] by simp
    then have "2 ^ 52 * 2 powi e \<le> a" using powi_split[of e 52] by simp
    then show ?thesis using pw by (simp add: field_simps)
  qed
qed

lemma round_half_even_half: "\<bar>x - of_int (round_half_even x)\<bar> \<le> 1 / 2"
  using round_half_even_dist[of x] by linarith

lemma round_half_even_mono_floor: "\<lfloor>x\<rfloor> \<le> round_half_even x"
  using round_half_even_cases[of x] by linarith

lemma round_double_pos:
  assumes "0 < a"
  defines "e \<equiv> max (- 1074) (ilog2 a - 52)"
  defines "m \<equiv> round_half_even (a / 2 powi e)"
  shows "round_double a = (if (2::rat) powi 1024 \<le> of_int m * 2 powi e then None
                           else Some (of_int m * 2 powi e))"
  using assms(1) unfolding round_double_def Let_def e_def m_def by simp

lemma powi_le_exp: "(2::rat) powi i < 2 powi j \<Longrightarrow> i < j"
proof (rule ccontr)
  assume a: "(2::rat) powi i < 2 powi j" and "\<not> i < j"
  then have "j \<le> i" by simp
  then have "(2::rat) powi j \<le> 2 powi i" by (intro power_int_increasing) auto
  then show False using a by simp
qed

lemma round_double_pos_nearest:
  assumes "0 < a" "round_double a = Some r"
  shows "is_double r \<and> 0 \<le> r \<and> (\<forall>d. is_double d \<longrightarrow> \<bar>a - r\<bar> \<le> \<bar>a - d\<bar>)"
proof -
  define e where "e = max (- 1074) (ilog2 a - 52)"
  define x where "x = a / 2 powi e"
  define m where "m = round_half_even x"
  define pw where "pw = (2::rat) powi e"
  have pw: "0 < pw" unfolding pw_def by simp
  have e: "- 1074 \<le> e" unfolding e_def by simp
  have a: "a = x * pw" unfolding x_def pw_def by simp
  from round_double_pos[OF assms(1)] assms(2)
  have r: "r = of_int m * pw" and small: "r < 2 powi 1024"
    unfolding e_def[symmetric] x_def[symmetric] m_def[symmetric] pw_def
    by (auto split: if_splits)
  have x0: "0 < x" and x53: "x < 2 ^ 53" and x52: "e \<noteq> - 1074 \<Longrightarrow> 2 ^ 52 \<le> x"
    using scaled_bounds[OF assms(1)] unfolding e_def[symmetric] x_def[symmetric] by auto
  have f0: "0 \<le> \<lfloor>x\<rfloor>" using x0 by simp
  have f53: "\<lfloor>x\<rfloor> < 2 ^ 53"
  proof -
    have "x < of_int (2 ^ 53)" using x53 by simp
    then show ?thesis by (simp only: floor_less_iff)
  qed
  have m0: "0 \<le> m" using f0 round_half_even_mono_floor[of x] unfolding m_def by linarith
  have m53: "m \<le> 2 ^ 53" using f53 round_half_even_cases[of x] unfolding m_def by linarith
  have m52: "2 ^ 52 \<le> m" if "e \<noteq> - 1074"
  proof -
    have "of_int (2 ^ 52) \<le> x" using x52[OF that] by simp
    then have "2 ^ 52 \<le> \<lfloor>x\<rfloor>" by (simp only: le_floor_iff)
    then show ?thesis using round_half_even_mono_floor[of x] unfolding m_def by linarith
  qed
  have r0: "0 \<le> r" unfolding r using m0 pw by simp
  have dbl: "is_double r"
  proof (cases "m = 2 ^ 53")
    case True
    have "r = 2 ^ 53 * 2 powi e" unfolding r pw_def True by simp
    also have "\<dots> = 2 powi (e + 53)" using powi_split[of e 53] by simp
    finally have r53: "r = 2 powi (e + 53)" .
    then have "e + 53 < 1024" using small powi_le_exp by simp
    then have e1: "- 1074 \<le> e + 1" "e + 1 \<le> 971" using e by simp_all
    have "(2::rat) powi (e + 53) = 2 ^ 52 * 2 powi (e + 1)"
      using powi_split[of "e + 1" 52] by (simp add: add.commute add.left_commute)
    then have "r = of_int (2 ^ 52) * 2 powi (e + 1)" using r53 by simp
    moreover have "\<bar>2 ^ 52 :: int\<bar> < 2 ^ 53" by simp
    ultimately show ?thesis unfolding is_double_def using e1 by blast
  next
    case False
    then have mlt: "\<bar>m\<bar> < 2 ^ 53" using m0 m53 by simp
    have "e \<le> 971"
    proof (cases "e = - 1074")
      case True
      then show ?thesis by simp
    next
      case ne: False
      have "(2::rat) powi (e + 52) = 2 ^ 52 * pw" unfolding pw_def using powi_split[of e 52] by simp
      also have "\<dots> \<le> of_int m * pw"
      proof -
        have "(of_int (2 ^ 52) :: rat) \<le> of_int m" using m52[OF ne] by (simp only: of_int_le_iff)
        then show ?thesis using pw by (simp add: mult_right_mono)
      qed
      finally have "(2::rat) powi (e + 52) < 2 powi 1024" using small r by simp
      then have "e + 52 < 1024" by (rule powi_le_exp)
      then show ?thesis by simp
    qed
    then show ?thesis unfolding is_double_def using mlt e r pw_def by blast
  qed
  have near: "\<bar>a - r\<bar> \<le> \<bar>a - d\<bar>" if d: "is_double d" for d
  proof (cases "\<exists>y::int. d = of_int y * pw")
    case True
    then obtain y :: int where y: "d = of_int y * pw" by blast
    have "\<bar>a - r\<bar> = \<bar>x - of_int m\<bar> * pw"
      unfolding a r using pw by (simp add: abs_mult left_diff_distrib[symmetric])
    also have "\<dots> \<le> \<bar>x - of_int y\<bar> * pw"
      using round_half_even_nearest[of x y] pw unfolding m_def by (simp add: mult_right_mono)
    also have "\<dots> = \<bar>a - d\<bar>"
      unfolding a y using pw by (simp add: abs_mult left_diff_distrib[symmetric])
    finally show ?thesis .
  next
    case False
    then have nm: "\<not> (e = - 1074 \<or> 2 powi (e + 52) \<le> \<bar>d\<bar>)"
      using double_multiple[OF d e] unfolding pw_def by blast
    then have ne: "e \<noteq> - 1074" and dl: "\<bar>d\<bar> < 2 powi (e + 52)" by auto
    have p52: "(2::rat) powi (e + 52) = 2 ^ 52 * pw"
      unfolding pw_def using powi_split[of e 52] by simp
    have fl: "(2 ^ 52 :: rat) \<le> of_int \<lfloor>x\<rfloor>"
    proof -
      have "of_int (2 ^ 52) \<le> x" using x52[OF ne] by simp
      then have "2 ^ 52 \<le> \<lfloor>x\<rfloor>" by (simp only: le_floor_iff)
      then have "(of_int (2 ^ 52) :: rat) \<le> of_int \<lfloor>x\<rfloor>" by (simp only: of_int_le_iff)
      then show ?thesis by simp
    qed
    have "\<bar>a - r\<bar> = \<bar>x - of_int m\<bar> * pw"
      unfolding a r using pw by (simp add: abs_mult left_diff_distrib[symmetric])
    also have "\<dots> \<le> (x - of_int \<lfloor>x\<rfloor>) * pw"
      using round_half_even_dist[of x] pw unfolding m_def by (simp add: mult_right_mono)
    also have "\<dots> \<le> (x - 2 ^ 52) * pw"
      using fl pw by (simp add: mult_right_mono)
    also have "\<dots> = a - 2 powi (e + 52)" unfolding a p52 by (simp add: left_diff_distrib)
    also have "\<dots> \<le> a - \<bar>d\<bar>" using dl by simp
    also have "\<dots> \<le> \<bar>a - d\<bar>" by simp
    finally show ?thesis .
  qed
  show ?thesis using dbl r0 near by blast
qed

lemma round_double_pos_overflow:
  assumes "0 < a"
  shows "round_double a = None \<longleftrightarrow> 2 powi 1024 - 2 powi 970 \<le> a"
proof -
  define e where "e = max (- 1074) (ilog2 a - 52)"
  define x where "x = a / 2 powi e"
  define m where "m = round_half_even x"
  define pw where "pw = (2::rat) powi e"
  have pw: "0 < pw" unfolding pw_def by simp
  have a: "a = x * pw" unfolding x_def pw_def by simp
  have none: "round_double a = None \<longleftrightarrow> 2 powi 1024 \<le> of_int m * pw"
    using round_double_pos[OF assms]
    unfolding e_def[symmetric] x_def[symmetric] m_def[symmetric] pw_def by simp
  have x0: "0 < x" and x53: "x < 2 ^ 53" and x52: "e \<noteq> - 1074 \<Longrightarrow> 2 ^ 52 \<le> x"
    using scaled_bounds[OF assms] unfolding e_def[symmetric] x_def[symmetric] by auto
  have m52: "2 ^ 52 \<le> m" if "e \<noteq> - 1074"
  proof -
    have "of_int (2 ^ 52) \<le> x" using x52[OF that] by simp
    then have "2 ^ 52 \<le> \<lfloor>x\<rfloor>" by (simp only: le_floor_iff)
    then show ?thesis using round_half_even_mono_floor[of x] unfolding m_def by linarith
  qed
  have p1024: "(2::rat) powi 1024 = 2 ^ 52 * 2 powi 972" using powi_split[of 972 52] by simp
  have p1024': "(2::rat) powi 1024 = 2 ^ 53 * 2 powi 971" using powi_split[of 971 53] by simp
  have p971: "(2::rat) powi 971 = 2 * 2 powi 970" using powi_split[of 970 1] by simp
  show ?thesis
  proof
    assume "round_double a = None"
    then have big: "2 powi 1024 \<le> of_int m * pw" using none by simp
    show "2 powi 1024 - 2 powi 970 \<le> a"
    proof (cases "972 \<le> e")
      case True
      then have "(2::rat) powi 972 \<le> pw" unfolding pw_def by (intro power_int_increasing) auto
      moreover have "2 ^ 52 \<le> x" using x52 True by simp
      ultimately have "2 ^ 52 * 2 powi 972 \<le> x * pw" by (intro mult_mono) auto
      then have "2 powi 1024 \<le> a" unfolding a p1024 .
      moreover have "0 \<le> (2::rat) powi 970" by simp
      ultimately show ?thesis by linarith
    next
      case False
      then have "e \<le> 971" by simp
      then have le: "pw \<le> 2 powi 971" unfolding pw_def by (intro power_int_increasing) auto
      have "of_int m - 1 / 2 \<le> x" using round_half_even_half[of x] unfolding m_def by linarith
      then have "(of_int m - 1 / 2) * pw \<le> x * pw" using pw by (simp add: mult_right_mono)
      then have "of_int m * pw - pw / 2 \<le> a" unfolding a by (simp add: left_diff_distrib)
      moreover have "pw / 2 \<le> 2 powi 970" using le unfolding p971 by simp
      ultimately show ?thesis using big by linarith
    qed
  next
    assume big: "2 powi 1024 - 2 powi 970 \<le> a"
    have "(2::rat) powi 1023 = 2 * 2 powi 1022" using powi_split[of 1022 1] by simp
    have p1023: "(2::rat) powi 1024 = 2 ^ 54 * 2 powi 970" using powi_split[of 970 54] by simp
    have q1023: "(2::rat) powi 1023 = 2 ^ 53 * 2 powi 970" using powi_split[of 970 53] by simp
    have "(2::rat) powi 1023 \<le> 2 powi 1024 - 2 powi 970"
      unfolding p1023 q1023 by (simp add: algebra_simps)
    then have "(2::rat) powi 1023 < 2 powi (ilog2 a + 1)"
      using big ilog2_bounds[OF assms] by linarith
    then have "1023 < ilog2 a + 1" by (rule powi_le_exp)
    then have e971: "971 \<le> e" unfolding e_def by simp
    then have ne: "e \<noteq> - 1074" by simp
    show "round_double a = None"
    proof (cases "972 \<le> e")
      case True
      then have "(2::rat) powi 972 \<le> pw" unfolding pw_def by (intro power_int_increasing) auto
      moreover have "(2 ^ 52 :: rat) \<le> of_int m"
      proof -
        have "(of_int (2 ^ 52) :: rat) \<le> of_int m" using m52[OF ne] by (simp only: of_int_le_iff)
        then show ?thesis by simp
      qed
      ultimately have "2 ^ 52 * 2 powi 972 \<le> of_int m * pw" by (intro mult_mono) auto
      then show ?thesis using none unfolding p1024 by simp
    next
      case False
      then have e: "e = 971" using e971 by simp
      have pwe: "pw = 2 * 2 powi 970" unfolding pw_def e p971 by simp
      have "(2 ^ 53 - 1 / 2) * pw = 2 powi 1024 - 2 powi 970"
        unfolding p1023 pwe by (simp add: algebra_simps)
      then have "(2 ^ 53 - 1 / 2) * pw \<le> x * pw" using big a by simp
      then have xl: "2 ^ 53 - 1 / 2 \<le> x" using pw by simp
      have "of_int (2 ^ 53 - 1) \<le> x" using xl by simp
      then have "2 ^ 53 - 1 \<le> \<lfloor>x\<rfloor>" by (simp only: le_floor_iff)
      moreover have "\<lfloor>x\<rfloor> < 2 ^ 53"
      proof -
        have "x < of_int (2 ^ 53)" using x53 by simp
        then show ?thesis by (simp only: floor_less_iff)
      qed
      ultimately have fl: "\<lfloor>x\<rfloor> = 2 ^ 53 - 1" by linarith
      have odd: "\<not> even \<lfloor>x\<rfloor>" unfolding fl by simp
      have fr: "\<not> x - of_int \<lfloor>x\<rfloor> < 1 / 2" unfolding fl using xl by simp
      have "m = \<lfloor>x\<rfloor> + 1" unfolding m_def round_half_even_def Let_def using odd fr by simp
      then have "m = 2 ^ 53" using fl by simp
      then have "of_int m * pw = 2 powi 1024" unfolding p1024' pw_def e by simp
      then show ?thesis using none by simp
    qed
  qed
qed

lemma is_double_minus: "is_double (- d) \<longleftrightarrow> is_double d"
proof -
  have "is_double (- d)" if "is_double d" for d
  proof -
    from that obtain m e where "\<bar>m\<bar> < 2 ^ 53" "- 1074 \<le> e" "e \<le> 971" "d = of_int m * 2 powi e"
      unfolding is_double_def by blast
    then have "\<bar>- m\<bar> < 2 ^ 53 \<and> - 1074 \<le> e \<and> e \<le> 971 \<and> - d = of_int (- m) * 2 powi e"
      by simp
    then show ?thesis unfolding is_double_def by blast
  qed
  from this[of d] this[of "- d"] show ?thesis by auto
qed

lemma is_double_zero: "is_double 0"
proof -
  have "\<bar>0::int\<bar> < 2 ^ 53 \<and> - 1074 \<le> (0::int) \<and> (0::int) \<le> 971 \<and> (0::rat) = of_int 0 * 2 powi 0"
    by simp
  then show ?thesis unfolding is_double_def by blast
qed

lemma round_double_abs:
  "q \<noteq> 0 \<Longrightarrow> round_double q = map_option (\<lambda>r. sgn q * r) (round_double \<bar>q\<bar>)"
  unfolding round_double_def Let_def by simp

lemma round_double_overflow:
  "round_double q = None \<longleftrightarrow> 2 powi 1024 - 2 powi 970 \<le> \<bar>q\<bar>"
proof (cases "q = 0")
  case True
  have "(2::rat) powi 1024 = 2 ^ 54 * 2 powi 970" using powi_split[of 970 54] by simp
  moreover have "0 < (2::rat) powi 970" by simp
  ultimately have "\<not> (2::rat) powi 1024 - 2 powi 970 \<le> 0" by simp
  then show ?thesis using True by (simp add: round_double_def)
next
  case False
  then have "0 < \<bar>q\<bar>" by simp
  from round_double_pos_overflow[OF this] round_double_abs[OF False] show ?thesis by simp
qed

lemma round_double_nearest:
  assumes "round_double q = Some r"
  shows "is_double r \<and> (\<forall>d. is_double d \<longrightarrow> \<bar>q - r\<bar> \<le> \<bar>q - d\<bar>)"
proof (cases "q = 0")
  case True
  then have "r = 0" using assms by (simp add: round_double_def)
  then show ?thesis using True is_double_zero by simp
next
  case False
  then have pos: "0 < \<bar>q\<bar>" by simp
  from assms round_double_abs[OF False] obtain r' where
    r': "round_double \<bar>q\<bar> = Some r'" and r: "r = sgn q * r'" by auto
  from round_double_pos_nearest[OF pos r'] have
    d: "is_double r'" and n: "\<And>d. is_double d \<Longrightarrow> \<bar>\<bar>q\<bar> - r'\<bar> \<le> \<bar>\<bar>q\<bar> - d\<bar>"
    by auto
  show ?thesis
  proof (cases "0 < q")
    case True
    then have "r = r'" "\<bar>q\<bar> = q" using r by simp_all
    then show ?thesis using d n by simp
  next
    case neg: False
    then have q: "\<bar>q\<bar> = - q" and rr: "r = - r'" using r False by simp_all
    have "\<bar>q - r\<bar> \<le> \<bar>q - x\<bar>" if "is_double x" for x
    proof -
      have "is_double (- x)" using that is_double_minus by simp
      from n[OF this] show ?thesis unfolding q rr by (simp add: abs_minus_commute) 
    qed
    moreover have "is_double r" unfolding rr using d is_double_minus by simp
    ultimately show ?thesis by blast
  qed
qed

text \<open>
  \<open>round_double\<close> returns a double that no other double beats in distance to the
  quotient, and it fails exactly for the quotients whose absolute value reaches the
  midpoint between the largest double and \<open>2 ^ 1024\<close>.
\<close>

lemma truediv_cases:
  assumes "b \<noteq> 0"
  shows "(\<not> in_double_range (of_int a / of_int b) \<longrightarrow> truediv a b = Inl OverflowError)
       \<and> (in_double_range (of_int a / of_int b) \<longrightarrow>
            (\<exists>x. truediv a b = Inr x \<and> nearest_double (of_int a / of_int b) x))"
proof (cases "round_double (of_int a / of_int b)")
  case None
  then have "\<not> in_double_range (of_int a / of_int b)"
    using round_double_overflow[of "of_int a / of_int b"] by (simp add: in_double_range_def)
  moreover have "truediv a b = Inl OverflowError" using None assms by (simp add: truediv_def)
  ultimately show ?thesis by simp
next
  case (Some x)
  then have "in_double_range (of_int a / of_int b)"
    using round_double_overflow[of "of_int a / of_int b"] by (simp add: in_double_range_def)
  moreover have "truediv a b = Inr x" using Some assms by (simp add: truediv_def)
  moreover have "nearest_double (of_int a / of_int b) x"
    using round_double_nearest[OF Some] by (simp add: nearest_double_def)
  ultimately show ?thesis by simp
qed

lemma truediv_Inr:
  assumes "truediv a b = Inr x"
  shows "b \<noteq> 0 \<and> in_double_range (of_int a / of_int b)
         \<and> nearest_double (of_int a / of_int b) x"
proof -
  have b: "b \<noteq> 0" using assms by (auto simp: truediv_def split: if_splits)
  from truediv_cases[OF b, of a] assms show ?thesis using b by auto
qed

section \<open>Loading and cleaning\<close>

lemma list_all_required:
  "list_all P required_columns \<longleftrightarrow> P ''Name'' \<and> P ''Year Published'' \<and> P ''Mechanics''"
  by (simp add: required_columns_def)

text \<open>
  Claim C4. When the file parses to a table \<open>df\<close> and \<open>load_dataset_clean\<close> returns a
  table, its rows are exactly the rows of \<open>df\<close> in which Name, Year Published and
  Mechanics are all present and Year Published is not 0, in the order they have in \<open>df\<close>;
  the columns are those of \<open>df\<close>.
\<close>

theorem load_dataset_clean_rows:
  assumes "read_csv (dataset_path self) sep = Inr df"
    and "fst (load_dataset_clean read_csv self sep) = Inr cd"
  shows "rows cd = filter (\<lambda>r. complete_row r \<and> \<not> eq_zero (r ''Year Published'')) (rows df)
       \<and> columns cd = columns df"
  using assms
  by (auto simp: load_dataset_clean_def dropna_def Let_def list_all_required complete_row_def
      split: if_splits)

text \<open>
  The sample table has five rows; the second has year 0 and the fourth has no mechanics.
\<close>

theorem load_dataset_clean_rows_witness:
  "sample_reader (dataset_path (init ''dataset.csv'' ''key'')) '';'' = Inr sample_table
   \<and> fst (load_dataset_clean sample_reader (init ''dataset.csv'' ''key'') '';'')
       = Inr \<lparr>columns = [''Name'', ''Year Published'', ''Mechanics''],
              rows = [row_of g1, row_of g2, row_of g3]\<rparr>
   \<and> filter (\<lambda>r. complete_row r \<and> \<not> eq_zero (r ''Year Published'')) (rows sample_table)
       = [row_of g1, row_of g2, row_of g3]"
proof -
  have a: "sample_reader (dataset_path (init ''dataset.csv'' ''key'')) '';'' = Inr sample_table"
    by (simp add: sample_reader_def init_def)
  have k1: "\<not> isna (row_of g1 ''Name'') \<and> \<not> isna (row_of g1 ''Year Published'')
            \<and> \<not> isna (row_of g1 ''Mechanics'') \<and> \<not> eq_zero (row_of g1 ''Year Published'')"
    by (simp add: row_of_def g1_def isna_def)
  have k2: "\<not> isna (row_of g2 ''Name'') \<and> \<not> isna (row_of g2 ''Year Published'')
            \<and> \<not> isna (row_of g2 ''Mechanics'') \<and> \<not> eq_zero (row_of g2 ''Year Published'')"
    by (simp add: row_of_def g2_def isna_def)
  have k3: "\<not> isna (row_of g3 ''Name'') \<and> \<not> isna (row_of g3 ''Year Published'')
            \<and> \<not> isna (row_of g3 ''Mechanics'') \<and> \<not> eq_zero (row_of g3 ''Year Published'')"
    by (simp add: row_of_def g3_def isna_def)
  have k4: "\<not> isna (row_of unpublished ''Name'') \<and> \<not> isna (row_of unpublished ''Year Published'')
            \<and> \<not> isna (row_of unpublished ''Mechanics'') \<and> eq_zero (row_of unpublished ''Year Published'')"
    by (simp add: row_of_def unpublished_def isna_def)
  have k5: "isna (row_of incomplete ''Mechanics'')"
    by (simp add: row_of_def incomplete_def isna_def)
  have b: "fst (load_dataset_clean sample_reader (init ''dataset.csv'' ''key'') '';'')
       = Inr \<lparr>columns = [''Name'', ''Year Published'', ''Mechanics''],
              rows = [row_of g1, row_of g2, row_of g3]\<rparr>"
    by (simp add: load_dataset_clean_def sample_reader_def init_def sample_table_def
        dropna_def Let_def list_all_required k1 k2 k3 k4 k5)
  from load_dataset_clean_rows[OF a b]
  have "filter (\<lambda>r. complete_row r \<and> \<not> eq_zero (r ''Year Published'')) (rows sample_table)
       = [row_of g1, row_of g2, row_of g3]"
    by simp
  then show ?thesis using a b by simp
qed

text \<open>
  Claim C9 says that \<open>load_dataset_clean\<close> fails for a missing file, fails for a missing
  required column, and returns the cleaned table in all other cases. The \<open>try\<close> of
  lines 14 to 17 handles \<open>FileNotFoundError\<close> only: a file that is there and cannot be
  read (here the reader raises \<open>PermissionError\<close>) gives neither of the two failures and no
  table.
\<close>

theorem load_unreadable_counterexample:
  "fst (load_dataset_clean unreadable (init ''dataset.csv'' ''key'') '';'')
     = Inl (OtherException ''PermissionError'')"
  by (simp add: load_dataset_clean_def unreadable_def)

text \<open>
  Claim C9, amended. \<open>load_dataset_clean\<close> fails with \<open>FileNotFoundError\<close> when the
  reader reports that the file does not exist; fails with the \<open>ValueError\<close> for missing
  columns when the table is read and one of Name, Year Published, Mechanics is not among
  its columns; returns the cleaned table (and stores it) when the table is read and has
  the three columns; and when the reader fails in any other way, that exception comes out
  unchanged.
\<close>

theorem load_dataset_clean_outcomes:
  "(\<forall>m. read_csv (dataset_path self) sep = Inl (FileNotFoundError m) \<longrightarrow>
        fst (load_dataset_clean read_csv self sep)
          = Inl (FileNotFoundError (''File not found: '' @ dataset_path self)))
   \<and> (\<forall>df. read_csv (dataset_path self) sep = Inr df
             \<and> \<not> set required_columns \<subseteq> set (columns df) \<longrightarrow>
        fst (load_dataset_clean read_csv self sep) = Inl ValueError_missing_columns)
   \<and> (\<forall>df. read_csv (dataset_path self) sep = Inr df
             \<and> set required_columns \<subseteq> set (columns df) \<longrightarrow>
        (\<exists>cd. load_dataset_clean read_csv self sep
                = (Inr cd, self\<lparr>dataset := Some df, cleaned_dataset := Some cd\<rparr>)))
   \<and> (\<forall>e. read_csv (dataset_path self) sep = Inl e \<and> (\<forall>m. e \<noteq> FileNotFoundError m) \<longrightarrow>
        fst (load_dataset_clean read_csv self sep) = Inl e)"
  by (auto simp: load_dataset_clean_def Let_def list_all_iff split: exn.splits)

text \<open>One input for each of the four cases.\<close>

theorem load_dataset_clean_outcomes_witness:
  "sample_reader (dataset_path (init ''missing.csv'' ''key'')) '';''
       = Inl (FileNotFoundError ''missing.csv'')
   \<and> fst (load_dataset_clean sample_reader (init ''missing.csv'' ''key'') '';'')
       = Inl (FileNotFoundError ''File not found: missing.csv'')
   \<and> headerless (dataset_path (init ''dataset.csv'' ''key'')) '';''
       = Inr \<lparr>columns = [''Name'', ''Mechanics''], rows = []\<rparr>
   \<and> fst (load_dataset_clean headerless (init ''dataset.csv'' ''key'') '';'')
       = Inl ValueError_missing_columns
   \<and> sample_reader (dataset_path (init ''dataset.csv'' ''key'')) '';'' = Inr sample_table
   \<and> (\<exists>cd. load_dataset_clean sample_reader (init ''dataset.csv'' ''key'') '';''
              = (Inr cd, (init ''dataset.csv'' ''key'')
                           \<lparr>dataset := Some sample_table, cleaned_dataset := Some cd\<rparr>))
   \<and> unreadable (dataset_path (init ''dataset.csv'' ''key'')) '';''
       = Inl (OtherException ''PermissionError'')
   \<and> fst (load_dataset_clean unreadable (init ''dataset.csv'' ''key'') '';'')
       = Inl (OtherException ''PermissionError'')"
proof -
  let ?m = "init ''missing.csv'' ''key''"
  let ?d = "init ''dataset.csv'' ''key''"
  have h1: "sample_reader (dataset_path ?m) '';'' = Inl (FileNotFoundError ''missing.csv'')"
    by (simp add: sample_reader_def init_def)
  have c1: "fst (load_dataset_clean sample_reader ?m '';'')
       = Inl (FileNotFoundError ''File not found: missing.csv'')"
    using load_dataset_clean_outcomes[of sample_reader ?m "'';''", THEN conjunct1,
        rule_format, OF h1]
    by (simp add: init_def)
  have h2: "headerless (dataset_path ?d) '';''
              = Inr \<lparr>columns = [''Name'', ''Mechanics''], rows = []\<rparr>
            \<and> \<not> set required_columns \<subseteq> set (columns \<lparr>columns = [''Name'', ''Mechanics''], rows = []\<rparr>)"
    by (simp add: headerless_def required_columns_def)
  have c2: "fst (load_dataset_clean headerless ?d '';'') = Inl ValueError_missing_columns"
    by (rule load_dataset_clean_outcomes[of headerless ?d "'';''", THEN conjunct2,
        THEN conjunct1, rule_format, OF h2])
  have h3: "sample_reader (dataset_path ?d) '';'' = Inr sample_table
            \<and> set required_columns \<subseteq> set (columns sample_table)"
    by (simp add: sample_reader_def init_def required_columns_def sample_table_def)
  have c3: "\<exists>cd. load_dataset_clean sample_reader ?d '';''
              = (Inr cd, ?d\<lparr>dataset := Some sample_table, cleaned_dataset := Some cd\<rparr>)"
    by (rule load_dataset_clean_outcomes[of sample_reader ?d "'';''", THEN conjunct2,
        THEN conjunct2, THEN conjunct1, rule_format, OF h3])
  have h4: "unreadable (dataset_path ?d) '';'' = Inl (OtherException ''PermissionError'')
            \<and> (\<forall>m. OtherException ''PermissionError'' \<noteq> FileNotFoundError m)"
    by (simp add: unreadable_def)
  have c4: "fst (load_dataset_clean unreadable ?d '';'') = Inl (OtherException ''PermissionError'')"
    by (rule load_dataset_clean_outcomes[of unreadable ?d "'';''", THEN conjunct2,
        THEN conjunct2, THEN conjunct2, rule_format, OF h4])
  show ?thesis
    by (intro conjI) (fact h1 c1 h2[THEN conjunct1] c2 h3[THEN conjunct1] c3 h4[THEN conjunct1] c4)+
qed

section \<open>Verification of one game\<close>

lemma count_commas: "count m CHR '','' = commas m"
  by (simp add: count_def commas_def length_filter_conv_card)

lemma verify_found:
  assumes "cleaned_dataset self = Some cd"
    and "filter (\<lambda>r. r ''Name'' = PStr game_name) (rows cd) = r # others"
    and "r ''Mechanics'' = PStr m"
    and "gm (model_calls self)
            \<lparr>prompt_game = PStr game_name, prompt_mechanics = mechanics_prompt m\<rparr>
          = Inr response"
    and "parse_count maxd response = Inr k"
  shows "fst (verify_mechanics_with_genai gm maxd self game_name)
          = truediv k (int (commas m) + 1)"
  using assms
  by (auto simp: verify_mechanics_with_genai_def Let_def count_commas add.commute
      split: sum.splits)

lemma foldl_zeros:
  "foldl (\<lambda>a c. 10 * a + digit_val c) a (replicate n CHR ''0'') = a * 10 ^ n"
  by (induction n arbitrary: a) (simp_all add: digit_val_def)

lemma parse_one_zeros:
  assumes "maxd = 0 \<or> Suc n \<le> maxd"
  shows "parse_count maxd (CHR ''1'' # replicate n CHR ''0'') = Inr (10 ^ n)"
proof -
  let ?s = "CHR ''1'' # replicate n CHR ''0''"
  have d: "list_all isdecimal ?s" by (simp add: isdecimal_def list_all_iff)
  have "\<not> isspace (hd ?s)" "\<not> isspace (last ?s)"
    by (simp_all add: isspace_def)
  then have s: "strip ?s = ?s" using strip_fixed by blast
  have "py_int maxd ?s = Inr (decimal ?s)"
    using d assms by (intro py_int_digits) simp_all
  moreover have "decimal ?s = 10 ^ n"
  proof -
    have one: "digit_val CHR ''1'' = 1" by (simp add: digit_val_def)
    show ?thesis
      unfolding digits_value_decimal[symmetric] digits_value_def
      by (simp add: foldl_zeros one)
  qed
  ultimately show ?thesis by (simp add: parse_count_def s)
qed

lemma loaded_rows:
  "cleaned_dataset loaded = Some \<lparr>columns = [''Name'', ''Year Published'', ''Mechanics''],
                               rows = [row_of g1, row_of g2, row_of g3]\<rparr>"
  by (simp add: loaded_def)

lemma loaded_cells:
  "row_of g1 ''Name'' = PStr ''G1''" "row_of g2 ''Name'' = PStr ''G2''"
  "row_of g3 ''Name'' = PStr ''G3''"
  "row_of g1 ''Mechanics'' = PStr ''Dice Rolling,Trading,Area Control''"
  "row_of g3 ''Mechanics'' = PStr ''Auction''"
  by (simp_all add: row_of_def g1_def g2_def g3_def)

lemma commas_g1: "commas ''Dice Rolling,Trading,Area Control'' = 2"
  unfolding count_commas[symmetric] by (simp add: count_def)

lemma commas_g3: "commas ''Auction'' = 0"
  unfolding count_commas[symmetric] by (simp add: count_def)

lemma huge_out_of_range: "\<not> in_double_range (of_int (10 ^ 309) / of_int 3)"
  by (simp add: in_double_range_def)

text \<open>
  Claim C8 says that the verification of a game of the dataset returns the parsed count
  divided by the number of mechanics. The division of line 47 gives a float: for a count
  beyond the range of a double (here 1 followed by 309 zeros, for the three mechanics of
  G1) it raises \<open>OverflowError\<close> and nothing is returned.
\<close>

theorem verify_overflow_counterexample:
  "fst (verify_mechanics_with_genai huge_client 4300 loaded ''G1'') = Inl OverflowError"
proof -
  let ?cd = "\<lparr>columns = [''Name'', ''Year Published'', ''Mechanics''],
             rows = [row_of g1, row_of g2, row_of g3]\<rparr>"
  have f: "filter (\<lambda>r. r ''Name'' = PStr ''G1'') (rows ?cd) = row_of g1 # []"
    by (simp add: loaded_cells)
  have g: "huge_client (model_calls loaded)
            \<lparr>prompt_game = PStr ''G1'',
             prompt_mechanics = mechanics_prompt ''Dice Rolling,Trading,Area Control''\<rparr>
          = Inr (CHR ''1'' # replicate 309 CHR ''0'')"
    by (simp add: huge_client_def)
  have p: "parse_count 4300 (CHR ''1'' # replicate 309 CHR ''0'') = Inr (10 ^ 309)"
    by (rule parse_one_zeros) simp
  have "fst (verify_mechanics_with_genai huge_client 4300 loaded ''G1'')
          = truediv (10 ^ 309) (int (commas ''Dice Rolling,Trading,Area Control'') + 1)"
    by (rule verify_found[where gm = huge_client and self = loaded and r = "row_of g1"
          and m = "''Dice Rolling,Trading,Area Control''", OF loaded_rows f loaded_cells(4) g p])
  also have "\<dots> = truediv (10 ^ 309) 3" by (simp add: commas_g1)
  also have "\<dots> = Inl OverflowError"
    using truediv_cases[of 3 "10 ^ 309"] huge_out_of_range by simp
  finally show ?thesis .
qed

text \<open>
  Claim C8, amended. Let the dataset be loaded. If \<open>r\<close> is the first row whose Name is
  \<open>game_name\<close>, its Mechanics are the string \<open>m\<close>, the client answers and the answer
  parses to \<open>k\<close>, then \<open>verify_mechanics_with_genai\<close> does what the true division of \<open>k\<close>
  by the number of commas in \<open>m\<close> plus 1 does: when the quotient is within the range of a
  double it returns a double nearest to it, and otherwise it fails with \<open>OverflowError\<close>.
  \<open>m\<close> is the cell as it stands, not the prompt text made from it. If no row has that
  Name, the call fails with the \<open>ValueError\<close> that says the game was not found, and
  \<open>self\<close> is unchanged.
\<close>

theorem verify_mechanics_accuracy:
  "(\<forall>cd r others m response k.
       cleaned_dataset self = Some cd
       \<and> filter (\<lambda>r. r ''Name'' = PStr game_name) (rows cd) = r # others
       \<and> r ''Mechanics'' = PStr m
       \<and> gm (model_calls self)
            \<lparr>prompt_game = PStr game_name, prompt_mechanics = mechanics_prompt m\<rparr>
          = Inr response
       \<and> parse_count maxd response = Inr k
     \<longrightarrow> (in_double_range (of_int k / of_int (int (commas m) + 1)) \<longrightarrow>
            (\<exists>x. fst (verify_mechanics_with_genai gm maxd self game_name) = Inr x
                 \<and> nearest_double (of_int k / of_int (int (commas m) + 1)) x))
         \<and> (\<not> in_double_range (of_int k / of_int (int (commas m) + 1)) \<longrightarrow>
            fst (verify_mechanics_with_genai gm maxd self game_name) = Inl OverflowError)
         \<and> fst (verify_mechanics_with_genai gm maxd self game_name)
            = truediv k (int (commas m) + 1))
   \<and> (\<forall>cd. cleaned_dataset self = Some cd
            \<and> PStr game_name \<notin> (\<lambda>r. r ''Name'') ` set (rows cd)
     \<longrightarrow> verify_mechanics_with_genai gm maxd self game_name
          = (Inl (ValueError_game_not_found game_name), self))"
proof (intro conjI allI impI)
  fix cd r others m response k
  assume h: "cleaned_dataset self = Some cd
       \<and> filter (\<lambda>r. r ''Name'' = PStr game_name) (rows cd) = r # others
       \<and> r ''Mechanics'' = PStr m
       \<and> gm (model_calls self)
            \<lparr>prompt_game = PStr game_name, prompt_mechanics = mechanics_prompt m\<rparr>
          = Inr response
       \<and> parse_count maxd response = Inr k"
  have v: "fst (verify_mechanics_with_genai gm maxd self game_name)
            = truediv k (int (commas m) + 1)"
    using h by (intro verify_found[where cd = cd and r = r and others = others
          and response = response]) simp_all
  have nz: "int (commas m) + 1 \<noteq> 0" by simp
  note c = truediv_cases[OF nz, of k]
  show "fst (verify_mechanics_with_genai gm maxd self game_name)
            = truediv k (int (commas m) + 1)" by (rule v)
  show "\<exists>x. fst (verify_mechanics_with_genai gm maxd self game_name) = Inr x
                 \<and> nearest_double (of_int k / of_int (int (commas m) + 1)) x"
    if "in_double_range (of_int k / of_int (int (commas m) + 1))"
    using c that unfolding v by simp
  show "fst (verify_mechanics_with_genai gm maxd self game_name) = Inl OverflowError"
    if "\<not> in_double_range (of_int k / of_int (int (commas m) + 1))"
    using c that unfolding v by simp
next
  fix cd
  assume h: "cleaned_dataset self = Some cd
            \<and> PStr game_name \<notin> (\<lambda>r. r ''Name'') ` set (rows cd)"
  then have "filter (\<lambda>r. r ''Name'' = PStr game_name) (rows cd) = []"
    by (force simp: filter_empty_conv image_iff)
  then show "verify_mechanics_with_genai gm maxd self game_name
          = (Inl (ValueError_game_not_found game_name), self)"
    using h by (simp add: verify_mechanics_with_genai_def)
qed

lemma parse_two: "parse_count 4300 ''2'' = Inr 2"
  by (simp add: parse_count_def py_int_def strip_def isspace_def int_space_def isdecimal_def
      digits_value_def digit_val_def)

lemma parse_midway: "parse_count 4300 ''9007199254740993'' = Inr 9007199254740993"
  by (simp add: parse_count_def py_int_def strip_def isspace_def int_space_def isdecimal_def
      digits_value_def digit_val_def)

lemma truediv_two_thirds: "truediv 2 3 = Inr (6004799503160661 / 9007199254740992)"
  by code_simp

lemma truediv_midway: "truediv 9007199254740993 1 = Inr 9007199254740992"
  by code_simp

text \<open>
  G1 has two commas and the client answers 2; G3 has none and the answer
  9007199254740993 lies midway between two doubles; the answer with 310 digits is out
  of range; no game is called G9.
\<close>

theorem verify_mechanics_accuracy_witness:
  "fst (verify_mechanics_with_genai sample_client 4300 loaded ''G1'')
     = Inr (6004799503160661 / 9007199254740992)
   \<and> commas ''Dice Rolling,Trading,Area Control'' = 2
   \<and> nearest_double (2 / 3) (6004799503160661 / 9007199254740992)
   \<and> fst (verify_mechanics_with_genai midway_client 4300 loaded ''G3'') = Inr 9007199254740992
   \<and> commas ''Auction'' = 0
   \<and> fst (verify_mechanics_with_genai huge_client 4300 loaded ''G1'') = Inl OverflowError
   \<and> verify_mechanics_with_genai sample_client 4300 loaded ''G9''
       = (Inl (ValueError_game_not_found ''G9''), loaded)"
proof -
  let ?cd = "\<lparr>columns = [''Name'', ''Year Published'', ''Mechanics''],
             rows = [row_of g1, row_of g2, row_of g3]\<rparr>"
  let ?m1 = "''Dice Rolling,Trading,Area Control''"
  have h1: "cleaned_dataset loaded = Some ?cd
       \<and> filter (\<lambda>r. r ''Name'' = PStr ''G1'') (rows ?cd) = row_of g1 # []
       \<and> row_of g1 ''Mechanics'' = PStr ?m1
       \<and> sample_client (model_calls loaded)
            \<lparr>prompt_game = PStr ''G1'', prompt_mechanics = mechanics_prompt ?m1\<rparr>
          = Inr ''2''
       \<and> parse_count 4300 ''2'' = Inr 2"
    by (simp add: loaded_rows loaded_cells parse_two) (simp add: sample_client_def loaded_def)
  note t1 = verify_mechanics_accuracy[of loaded "''G1''" sample_client 4300,
      THEN conjunct1, rule_format, OF h1]
  have a1: "fst (verify_mechanics_with_genai sample_client 4300 loaded ''G1'')
     = Inr (6004799503160661 / 9007199254740992)"
    using t1[THEN conjunct2, THEN conjunct2] by (simp add: commas_g1 truediv_two_thirds)
  have r1: "in_double_range (of_int 2 / of_int (int (commas ?m1) + 1))"
    by (simp add: commas_g1 in_double_range_def)
  from t1[THEN conjunct1, rule_format, OF r1] obtain x where
    x: "fst (verify_mechanics_with_genai sample_client 4300 loaded ''G1'') = Inr x"
    and nx: "nearest_double (of_int 2 / of_int (int (commas ?m1) + 1)) x"
    by blast
  have "Inr x = (Inr (6004799503160661 / 9007199254740992) :: exn + rat)"
    unfolding x[symmetric] by (rule a1)
  then have xe: "x = 6004799503160661 / 9007199254740992" by (simp only: sum.inject)
  have q: "of_int 2 / of_int (int (commas ?m1) + 1) = (2 / 3 :: rat)"
    by (simp add: commas_g1)
  have n1: "nearest_double (2 / 3) (6004799503160661 / 9007199254740992)"
    using nx unfolding q xe .
  have h3: "cleaned_dataset loaded = Some ?cd
       \<and> filter (\<lambda>r. r ''Name'' = PStr ''G3'') (rows ?cd) = row_of g3 # []
       \<and> row_of g3 ''Mechanics'' = PStr ''Auction''
       \<and> midway_client (model_calls loaded)
            \<lparr>prompt_game = PStr ''G3'', prompt_mechanics = mechanics_prompt ''Auction''\<rparr>
          = Inr ''9007199254740993''
       \<and> parse_count 4300 ''9007199254740993'' = Inr 9007199254740993"
    by (simp add: loaded_rows loaded_cells parse_midway) (simp add: midway_client_def)
  note t3 = verify_mechanics_accuracy[of loaded "''G3''" midway_client 4300,
      THEN conjunct1, rule_format, OF h3]
  have a3: "fst (verify_mechanics_with_genai midway_client 4300 loaded ''G3'') = Inr 9007199254740992"
    using t3[THEN conjunct2, THEN conjunct2] by (simp add: commas_g3 truediv_midway)
  have hh: "cleaned_dataset loaded = Some ?cd
       \<and> filter (\<lambda>r. r ''Name'' = PStr ''G1'') (rows ?cd) = row_of g1 # []
       \<and> row_of g1 ''Mechanics'' = PStr ?m1
       \<and> huge_client (model_calls loaded)
            \<lparr>prompt_game = PStr ''G1'', prompt_mechanics = mechanics_prompt ?m1\<rparr>
          = Inr (CHR ''1'' # replicate 309 CHR ''0'')
       \<and> parse_count 4300 (CHR ''1'' # replicate 309 CHR ''0'') = Inr (10 ^ 309)"
    using parse_one_zeros[of 4300 309]
    by (simp add: loaded_rows loaded_cells) (simp add: huge_client_def)
  note th = verify_mechanics_accuracy[of loaded "''G1''" huge_client 4300,
      THEN conjunct1, rule_format, OF hh]
  have rh: "\<not> in_double_range (of_int (10 ^ 309) / of_int (int (commas ?m1) + 1))"
    using huge_out_of_range by (simp add: commas_g1)
  have ah: "fst (verify_mechanics_with_genai huge_client 4300 loaded ''G1'') = Inl OverflowError"
    by (rule th[THEN conjunct2, THEN conjunct1, rule_format, OF rh])
  have h9: "cleaned_dataset loaded = Some ?cd
            \<and> PStr ''G9'' \<notin> (\<lambda>r. r ''Name'') ` set (rows ?cd)"
    by (simp add: loaded_rows loaded_cells)
  have a9: "verify_mechanics_with_genai sample_client 4300 loaded ''G9''
       = (Inl (ValueError_game_not_found ''G9''), loaded)"
    by (rule verify_mechanics_accuracy[of loaded "''G9''" sample_client 4300,
        THEN conjunct2, rule_format, OF h9])
  show ?thesis
    by (intro conjI) (fact a1 commas_g1 n1 a3 commas_g3 ah a9)+
qed

section \<open>The list of the top 200\<close>

lemma get_top_200_list_length:
  assumes "get_top_200_list sort_values self sort_by ascending = Inr games"
  shows "length games \<le> 200"
proof -
  from assms have "\<exists>df. games = to_dict_records (head 200 df)"
    by (simp add: get_top_200_list_def split: option.splits if_splits sum.splits) blast
  then obtain df where "games = to_dict_records (head 200 df)" ..
  then show ?thesis by (simp add: to_dict_records_def head_def)
qed

section \<open>Aggregation over a list of games\<close>

lemma keys_counter_incr: "set (keys (counter_incr c k)) = insert k (set (keys c))"
  by (induction c k rule: counter_incr.induct) (auto simp: keys_def)

lemma keys_counter_update: "set (keys (counter_update c ks)) = set (keys c) \<union> set ks"
  unfolding counter_update_def
  by (induction ks arbitrary: c) (auto simp: keys_counter_incr)

lemma process_game_nameless:
  assumes "\<not> has_name g"
  shows "process_game gm maxd st g = (Some (KeyError ''Name''), st)"
  using assms by (simp add: process_game_def try_body_def getitem_def has_name_def)

lemma process_game_unusable:
  assumes "map_of g ''Name'' = Some name" "name_and_mechanics g = None"
  shows "\<exists>e. process_game gm maxd st g =
           (None, st\<lparr>printed := printed st @ [Error_processing name e]\<rparr>)"
  using assms
  by (auto simp: process_game_def try_body_def getitem_def name_and_mechanics_def
      split: option.splits pyval.splits)

lemma process_game_failed:
  assumes "name_and_mechanics g = Some (name, m)"
    "applicable_count gm maxd (calls st) g = None"
  shows "\<exists>e. process_game gm maxd st g =
           (None, st\<lparr>all_mechanics := all_mechanics st \<union> set (split CHR '','' m),
                      calls := calls st + 1,
                      printed := printed st @ [Error_processing name e]\<rparr>)"
  using assms
  by (auto simp: process_game_def try_body_def getitem_def name_and_mechanics_def
      applicable_count_def Let_def split: option.splits pyval.splits sum.splits)

lemma process_game_parsed:
  assumes "name_and_mechanics g = Some (name, m)"
    "applicable_count gm maxd (calls st) g = Some k"
  shows "process_game gm maxd st g =
           (None, st\<lparr>all_mechanics := all_mechanics st \<union> set (split CHR '','' m),
                      calls := calls st + 1,
                      total_applicable_mechanics := total_applicable_mechanics st + k,
                      printed := printed st @ [Processed name k],
                      mechanic_counter :=
                        counter_update (mechanic_counter st)
                          (map strip (slice_to (split CHR '','' m) k))\<rparr>)"
  using assms
  by (auto simp: process_game_def try_body_def getitem_def name_and_mechanics_def
      applicable_count_def Let_def split: option.splits pyval.splits sum.splits)

lemma process_game_step:
  assumes "has_name g"
  shows "\<exists>st'. process_game gm maxd st g = (None, st')
           \<and> total_applicable_mechanics st' =
               total_applicable_mechanics st
                 + (case applicable_count gm maxd (calls st) g of None \<Rightarrow> 0 | Some k \<Rightarrow> k)
           \<and> all_mechanics st' = all_mechanics st \<union> split_mechanics g
           \<and> mechanic_counter st' =
               counter_update (mechanic_counter st)
                 (map strip (assigned g (applicable_count gm maxd (calls st) g)))
           \<and> calls st' = (if raw_mechanics g = None then calls st else Suc (calls st))"
proof -
  obtain name where name: "map_of g ''Name'' = Some name"
    using assms by (auto simp: has_name_def)
  show ?thesis
  proof (cases "name_and_mechanics g")
    case None
    then have c: "applicable_count gm maxd (calls st) g = None"
      by (simp add: applicable_count_def)
    from process_game_unusable[OF name None, of gm maxd st] obtain e where
      "process_game gm maxd st g = (None, st\<lparr>printed := printed st @ [Error_processing name e]\<rparr>)"
      by blast
    then show ?thesis using None c
      by (simp add: split_mechanics_def raw_mechanics_def assigned_def counter_update_def)
  next
    case (Some nm)
    then obtain m where nm: "name_and_mechanics g = Some (name, m)"
      using name by (auto simp: name_and_mechanics_def split: option.splits pyval.splits)
    show ?thesis
    proof (cases "applicable_count gm maxd (calls st) g")
      case None
      from process_game_failed[OF nm None] obtain e where
        "process_game gm maxd st g =
           (None, st\<lparr>all_mechanics := all_mechanics st \<union> set (split CHR '','' m),
                      calls := calls st + 1,
                      printed := printed st @ [Error_processing name e]\<rparr>)"
        by blast
      then show ?thesis using nm None
        by (simp add: split_mechanics_def raw_mechanics_def assigned_def counter_update_def)
    next
      case (Some k)
      from process_game_parsed[OF nm Some] show ?thesis using nm Some
        by (simp add: split_mechanics_def raw_mechanics_def assigned_def)
    qed
  qed
qed

lemma for_games_abort:
  "fst (for_games gm maxd st games) =
     (if list_all has_name games then None else Some (KeyError ''Name''))"
proof (induction games arbitrary: st)
  case Nil
  then show ?case by simp
next
  case (Cons g games)
  show ?case
  proof (cases "has_name g")
    case True
    from process_game_step[OF True, of gm maxd st] obtain st' where
      "process_game gm maxd st g = (None, st')" by blast
    then show ?thesis using True Cons.IH[of st'] by simp
  next
    case False
    then show ?thesis by (simp add: process_game_nameless)
  qed
qed

lemma for_games_accumulates:
  assumes "for_games gm maxd st games = (None, st')"
  shows "total_applicable_mechanics st' =
           total_applicable_mechanics st
             + parsed_total (applicable_counts gm maxd (calls st) games)
       \<and> all_mechanics st' = all_mechanics st \<union> (\<Union>g\<in>set games. split_mechanics g)
       \<and> set (keys (mechanic_counter st')) =
           set (keys (mechanic_counter st))
             \<union> (\<Union>(g, c)\<in>set (zip games (applicable_counts gm maxd (calls st) games)).
                  strip ` set (assigned g c))"
  using assms
proof (induction games arbitrary: st)
  case Nil
  then show ?case by (simp add: parsed_total_def)
next
  case (Cons g games)
  have hn: "has_name g"
  proof (rule ccontr)
    assume "\<not> has_name g"
    then have "for_games gm maxd st (g # games) = (Some (KeyError ''Name''), st)"
      by (simp add: process_game_nameless)
    then show False using Cons.prems by simp
  qed
  from process_game_step[OF hn, of gm maxd st] obtain st1 where
    st1: "process_game gm maxd st g = (None, st1)"
    and tot: "total_applicable_mechanics st1 =
               total_applicable_mechanics st
                 + (case applicable_count gm maxd (calls st) g of None \<Rightarrow> 0 | Some k \<Rightarrow> k)"
    and am: "all_mechanics st1 = all_mechanics st \<union> split_mechanics g"
    and mc: "mechanic_counter st1 =
               counter_update (mechanic_counter st)
                 (map strip (assigned g (applicable_count gm maxd (calls st) g)))"
    and cl: "calls st1 = (if raw_mechanics g = None then calls st else Suc (calls st))"
    by blast
  have rest: "for_games gm maxd st1 games = (None, st')"
    using Cons.prems st1 by simp
  note ih = Cons.IH[OF rest]
  have a: "total_applicable_mechanics st' =
           total_applicable_mechanics st
             + parsed_total (applicable_counts gm maxd (calls st) (g # games))"
    using ih tot cl by (simp add: parsed_total_def)
  have b: "all_mechanics st' = all_mechanics st \<union> (\<Union>g\<in>set (g # games). split_mechanics g)"
    using ih am by auto
  have c: "set (keys (mechanic_counter st')) =
           set (keys (mechanic_counter st))
             \<union> (\<Union>(g, c)\<in>set (zip (g # games) (applicable_counts gm maxd (calls st) (g # games))).
                  strip ` set (assigned g c))"
    using ih mc cl by (auto simp: keys_counter_update)
  show ?case using a b c by blast
qed

lemma slice_to_nonneg: "0 \<le> k \<Longrightarrow> slice_to xs k = take (nat k) xs"
  by (simp add: slice_to_def)

lemma slice_to_clamped:
  "int (length xs) \<le> k \<Longrightarrow> slice_to xs k = xs" and "slice_to xs 0 = []"
  by (simp_all add: slice_to_def)

lemma calculate_returns:
  assumes "calculate_total_applicable_mechanics gm maxd self games = (Inr res, self')"
  shows "\<exists>st. for_games gm maxd (initial_state self) games = (None, st)
           \<and> truediv (total_applicable_mechanics st) (int (sum_list (map len games)))
               = Inr (average_applicable_mechanics res)
           \<and> unassigned_mechanics res = all_mechanics st - set (keys (mechanic_counter st))"
  using assms unfolding calculate_total_applicable_mechanics_def Let_def
  by (auto split: option.splits prod.splits sum.splits)

lemmas eval_defs = calculate_total_applicable_mechanics_def initial_state_def
     process_game_def try_body_def getitem_def parse_count_def py_int_def strip_def isspace_def
    int_space_def isdecimal_def digits_value_def digit_val_def slice_to_def counter_update_def len_def keys_def most_common_def mechanics_prompt_def
   loaded_def g1_def g2_def g3_def nameless_def spaced_def sample_client_def minus_one_client_def

lemma truediv_7_9: "truediv 7 9 = Inr (7005599420354105 / 9007199254740992)"
  by code_simp

lemma sample_run:
  "calculate_total_applicable_mechanics sample_client 4300 loaded [g1, g2, g3]
     = (Inr \<lparr>average_applicable_mechanics = 7005599420354105 / 9007199254740992,
              least_ten_mechanics = [(''Worker Placement'', 1), (''Drafting'', 1),
                                     (''Trading'', 1), (''Dice Rolling'', 1)],
              top_ten_mechanics = [(''Dice Rolling'', 1), (''Trading'', 1),
                                   (''Drafting'', 1), (''Worker Placement'', 1)],
              unassigned_mechanics = {''Area Control'', ''Auction''}\<rparr>,
        loaded\<lparr>model_calls := 3\<rparr>)"
  by (simp add: eval_defs truediv_7_9 insert_Diff_if insert_commute)

lemma spaced_loop:
  "for_games sample_client 4300 (initial_state loaded) [spaced]
     = (None, \<lparr>total_applicable_mechanics = 2,
               mechanic_counter = [(''Dice Rolling'', 1), (''Trading'', 1)],
               all_mechanics = {''Dice Rolling'', '' Trading '', ''Area Control''},
               calls = 1,
               printed = [Processed (PStr ''G6'') 2]\<rparr>)"
  by (simp add: eval_defs insert_commute)

lemma spaced_run:
  "calculate_total_applicable_mechanics sample_client 4300 loaded [spaced]
     = (Inr \<lparr>average_applicable_mechanics = 6004799503160661 / 9007199254740992,
              least_ten_mechanics = [(''Trading'', 1), (''Dice Rolling'', 1)],
              top_ten_mechanics = [(''Dice Rolling'', 1), (''Trading'', 1)],
              unassigned_mechanics = {'' Trading '', ''Area Control''}\<rparr>,
        loaded\<lparr>model_calls := 1\<rparr>)"
  by (simp add: eval_defs truediv_two_thirds insert_Diff_if insert_commute)

lemma sample_counts:
  "applicable_counts sample_client 4300 (model_calls loaded) [g1, g2, g3] = [Some 2, Some 5, None]"
  by (simp add: applicable_count_def name_and_mechanics_def raw_mechanics_def
      sample_client_def loaded_def g1_def g2_def g3_def parse_count_def py_int_def
      strip_def isspace_def int_space_def isdecimal_def digits_value_def digit_val_def)

text \<open>
  Claim C1 says that the entries tallied for a game are the first \<open>k\<close> of the split
  mechanics, all of them when \<open>k\<close> is larger than their number and none when \<open>k\<close> is
  zero or negative. The slice \<open>[:k]\<close> of line 101 does that for \<open>k \<ge> 0\<close>
  (\<open>slice_to_nonneg\<close>); for a negative \<open>k\<close> it drops the last \<open>-k\<close> entries and keeps the
  others. With the response \<open>-1\<close> the game G1 adds \<open>-1\<close> to the total and two of its
  three mechanics to the tally.
\<close>

theorem negative_count_tallies:
  "slice_to (split CHR '','' ''Dice Rolling,Trading,Area Control'') (- 1)
     = [''Dice Rolling'', ''Trading'']
   \<and> process_game minus_one_client 4300 (initial_state loaded) g1
     = (None, \<lparr>total_applicable_mechanics = - 1,
               mechanic_counter = [(''Dice Rolling'', 1), (''Trading'', 1)],
               all_mechanics = {''Dice Rolling'', ''Trading'', ''Area Control''},
               calls = 1,
               printed = [Processed (PStr ''G1'') (- 1)]\<rparr>)"
  by (simp add: eval_defs)

text \<open>
  Claim C2. When \<open>calculate_total_applicable_mechanics\<close> returns, the loop has ended in
  a state \<open>st\<close>, and the set it returns last is the set of all comma-split substrings, as
  they stand, of the mechanics of the games of the list, minus the keys of the tally of
  \<open>st\<close>. A string is a key of the tally exactly when it is the trimmed form of an entry
  assigned for a game whose applicable count was parsed: the entry without the white
  space around it. The two sets hold different forms of an entry, so an entry written
  with white space around it stays in the result although its trimmed form was tallied.
\<close>

theorem unassigned_is_split_minus_tally:
  assumes "calculate_total_applicable_mechanics gm maxd self games = (Inr res, self')"
  shows "\<exists>st. for_games gm maxd (initial_state self) games = (None, st)
           \<and> unassigned_mechanics res =
               (\<Union>g\<in>set games. split_mechanics g) - set (keys (mechanic_counter st))
           \<and> set (keys (mechanic_counter st)) =
               {u. \<exists>(g, c)\<in>set (zip games (applicable_counts gm maxd (model_calls self) games)).
                     \<exists>s\<in>set (assigned g c). trimmed s u}"
proof -
  from calculate_returns[OF assms] obtain st where
    st: "for_games gm maxd (initial_state self) games = (None, st)"
    and un: "unassigned_mechanics res = all_mechanics st - set (keys (mechanic_counter st))"
    by auto
  from for_games_accumulates[OF st]
  have am: "all_mechanics st = (\<Union>g\<in>set games. split_mechanics g)"
    and ks: "set (keys (mechanic_counter st)) =
               (\<Union>(g, c)\<in>set (zip games (applicable_counts gm maxd (model_calls self) games)).
                  strip ` set (assigned g c))"
    by (simp_all add: initial_state_def keys_def)
  have "(\<Union>(g, c)\<in>set (zip games (applicable_counts gm maxd (model_calls self) games)).
                  strip ` set (assigned g c))
        = {u. \<exists>(g, c)\<in>set (zip games (applicable_counts gm maxd (model_calls self) games)).
                     \<exists>s\<in>set (assigned g c). trimmed s u}"
    by (auto simp: trimmed_iff)
  then show ?thesis using st un am ks by simp
qed

text \<open>
  One game with the mechanics \<open>Dice Rolling, Trading ,Area Control\<close> and the answer 2:
  Trading is tallied, and the entry with the blanks around it is returned as never
  assigned.
\<close>

theorem unassigned_is_split_minus_tally_witness:
  "(case fst (calculate_total_applicable_mechanics sample_client 4300 loaded [spaced]) of
      Inr res \<Rightarrow> unassigned_mechanics res = {'' Trading '', ''Area Control''}
    | Inl e \<Rightarrow> False)
   \<and> (\<Union>g\<in>set [spaced]. split_mechanics g) = {''Dice Rolling'', '' Trading '', ''Area Control''}
   \<and> {u. \<exists>(g, c)\<in>set (zip [spaced]
              (applicable_counts sample_client 4300 (model_calls loaded) [spaced])).
            \<exists>s\<in>set (assigned g c). trimmed s u}
       = {''Dice Rolling'', ''Trading''}"
proof -
  let ?R = "\<lparr>average_applicable_mechanics = 6004799503160661 / 9007199254740992,
              least_ten_mechanics = [(''Trading'', 1), (''Dice Rolling'', 1)],
              top_ten_mechanics = [(''Dice Rolling'', 1), (''Trading'', 1)],
              unassigned_mechanics = {'' Trading '', ''Area Control''}\<rparr>"
  let ?T = "{u. \<exists>(g, c)\<in>set (zip [spaced]
              (applicable_counts sample_client 4300 (model_calls loaded) [spaced])).
            \<exists>s\<in>set (assigned g c). trimmed s u}"
  from unassigned_is_split_minus_tally[OF spaced_run] obtain st where
    c: "for_games sample_client 4300 (initial_state loaded) [spaced] = (None, st)
        \<and> unassigned_mechanics ?R
            = (\<Union>g\<in>set [spaced]. split_mechanics g) - set (keys (mechanic_counter st))
        \<and> set (keys (mechanic_counter st)) = ?T" ..
  have c1: "for_games sample_client 4300 (initial_state loaded) [spaced] = (None, st)"
    using c by (elim conjE)
  have c3: "set (keys (mechanic_counter st)) = ?T"
    using c by (elim conjE)
  have st: "mechanic_counter st = [(''Dice Rolling'', 1), (''Trading'', 1)]"
    using c1 unfolding spaced_loop by auto
  have k: "set (keys (mechanic_counter st)) = {''Dice Rolling'', ''Trading''}"
    unfolding st by (simp add: keys_def)
  have t: "?T = {''Dice Rolling'', ''Trading''}"
    unfolding c3[symmetric] by (rule k)
  have a: "(\<Union>g\<in>set [spaced]. split_mechanics g)
            = {''Dice Rolling'', '' Trading '', ''Area Control''}"
    by (simp add: split_mechanics_def raw_mechanics_def name_and_mechanics_def spaced_def)
  have r: "(case fst (calculate_total_applicable_mechanics sample_client 4300 loaded [spaced]) of
      Inr res \<Rightarrow> unassigned_mechanics res = {'' Trading '', ''Area Control''}
    | Inl e \<Rightarrow> False)"
    unfolding spaced_run by simp
  show ?thesis
    by (intro conjI) (fact r a t)+
qed

lemma len_card: "len g = card (fst ` set g)"
  by (simp add: len_def length_remdups_card_conv)

text \<open>
  Claim C3. When \<open>calculate_total_applicable_mechanics\<close> returns, the sum over the games
  of the list of the number of keys of the record is not 0, and the average it returns is
  the true division of the sum of the applicable counts parsed along the list by that
  sum: a double nearest to their exact quotient.
\<close>

theorem average_over_field_count:
  assumes "calculate_total_applicable_mechanics gm maxd self games = (Inr res, self')"
  shows "(\<Sum>g\<leftarrow>games. card (fst ` set g)) \<noteq> 0
       \<and> nearest_double
           (of_int (parsed_total (applicable_counts gm maxd (model_calls self) games))
              / of_int (int (\<Sum>g\<leftarrow>games. card (fst ` set g))))
           (average_applicable_mechanics res)
       \<and> truediv (parsed_total (applicable_counts gm maxd (model_calls self) games))
            (int (\<Sum>g\<leftarrow>games. card (fst ` set g)))
          = Inr (average_applicable_mechanics res)"
proof -
  from calculate_returns[OF assms] obtain st where
    st: "for_games gm maxd (initial_state self) games = (None, st)"
    and td: "truediv (total_applicable_mechanics st) (int (sum_list (map len games)))
               = Inr (average_applicable_mechanics res)"
    by blast
  have l: "map len games = map (\<lambda>g. card (fst ` set g)) games"
    by (simp add: len_card)
  from for_games_accumulates[OF st]
  have t: "total_applicable_mechanics st =
          parsed_total (applicable_counts gm maxd (model_calls self) games)"
    by (simp add: initial_state_def)
  note td' = td[unfolded l t]
  from truediv_Inr[OF td'] show ?thesis using td' by simp
qed

text \<open>
  The three sample games have three keys each and the counts parsed are 2 and 5: the
  average is the double nearest to 7/9, which prints as 0.7777777777777778.
\<close>

theorem average_over_field_count_witness:
  "(case fst (calculate_total_applicable_mechanics sample_client 4300 loaded [g1, g2, g3]) of
      Inr res \<Rightarrow> average_applicable_mechanics res = 7005599420354105 / 9007199254740992
    | Inl e \<Rightarrow> False)
   \<and> parsed_total (applicable_counts sample_client 4300 (model_calls loaded) [g1, g2, g3]) = 7
   \<and> (\<Sum>g\<leftarrow>[g1, g2, g3]. card (fst ` set g)) = 9
   \<and> nearest_double (7 / 9) (7005599420354105 / 9007199254740992)
   \<and> truediv 7 9 = Inr (7005599420354105 / 9007199254740992)"
proof -
  note t = average_over_field_count[OF sample_run]
  have p: "parsed_total (applicable_counts sample_client 4300 (model_calls loaded) [g1, g2, g3]) = 7"
    unfolding sample_counts by (simp add: parsed_total_def)
  have c: "(\<Sum>g\<leftarrow>[g1, g2, g3]. card (fst ` set g)) = 9"
    by (simp add: g1_def g2_def g3_def)
  have n: "nearest_double (7 / 9) (7005599420354105 / 9007199254740992)"
    using t[THEN conjunct2, THEN conjunct1] unfolding p c by simp
  have d: "truediv 7 9 = Inr (7005599420354105 / 9007199254740992)"
    using t[THEN conjunct2, THEN conjunct2] unfolding p c by simp
  have r: "(case fst (calculate_total_applicable_mechanics sample_client 4300 loaded [g1, g2, g3]) of
      Inr res \<Rightarrow> average_applicable_mechanics res = 7005599420354105 / 9007199254740992
    | Inl e \<Rightarrow> False)"
    unfolding sample_run by simp
  show ?thesis
    by (intro conjI) (fact r p c n d)+
qed

text \<open>
  Claim C7 says that no failure in one game ends the batch. A record without a Name
  raises \<open>KeyError\<close> in line 84, the handler of line 106 reads the Name again, and that
  second \<open>KeyError\<close> leaves the loop and the function; the games behind it are not
  processed. (For a list in which every record has a Name the loop always runs to its
  end, and a game that fails leaves the total and the tally as they were: see
  \<open>for_games_abort\<close>, \<open>process_game_unusable\<close> and \<open>process_game_failed\<close>.)
\<close>

theorem nameless_record_aborts:
  "fst (calculate_total_applicable_mechanics sample_client 4300 loaded [g1, nameless, g2])
     = Inl (KeyError ''Name'')"
  by (simp add: eval_defs)

text \<open>
  Claim C10. On the empty list \<open>calculate_total_applicable_mechanics\<close> returns nothing:
  with a dataset loaded, the sum of line 109 is 0 and line 111 raises
  \<open>ZeroDivisionError\<close>; with none loaded, the guard of line 75 raises before.
\<close>

theorem empty_batch_raises:
  "(cleaned_dataset self \<noteq> None \<longrightarrow>
      fst (calculate_total_applicable_mechanics gm maxd self []) = Inl ZeroDivisionError)
   \<and> (cleaned_dataset self = None \<longrightarrow>
      fst (calculate_total_applicable_mechanics gm maxd self [])
        = Inl (AttributeError ''cleaned_dataset''))"
  by (auto simp: calculate_total_applicable_mechanics_def truediv_def)

text \<open>The loaded sample analyser.\<close>

theorem empty_batch_raises_witness:
  "cleaned_dataset loaded \<noteq> None
   \<and> fst (calculate_total_applicable_mechanics sample_client 4300 loaded []) = Inl ZeroDivisionError"
proof -
  have a: "cleaned_dataset loaded \<noteq> None" by (simp add: loaded_def)
  from empty_batch_raises[of loaded sample_client 4300] a show ?thesis by blast
qed

end
